theory Spec2Isabelle
  imports Complex_Main "HOL-Library.Word" "HOL-Library.Monad_Syntax"
begin

unbundle bit_operations_syntax

section \<open>JavaScript numbers and typed arrays\<close>

text \<open>
  A JavaScript number is modelled as an exact real, one of the two infinities, or NaN.
  Rounding, overflow to infinity and the sign of zero are not modelled: a finite result
  is the exact real result, and a zero divisor counts as \<open>+0\<close>.  \<open>undefined\<close> is
  \<open>None\<close> of an option type where a parameter can be missing, and becomes \<open>NaN\<close>
  when it is used in arithmetic.
\<close>

datatype jsnum = Num real | PInf | NInf | NaN

definition to_number :: "jsnum option \<Rightarrow> jsnum" where
  "to_number v = (case v of None \<Rightarrow> NaN | Some x \<Rightarrow> x)"

fun jneg :: "jsnum \<Rightarrow> jsnum" where
  "jneg (Num x) = Num (- x)"
| "jneg PInf = NInf"
| "jneg NInf = PInf"
| "jneg NaN = NaN"

fun jadd :: "jsnum \<Rightarrow> jsnum \<Rightarrow> jsnum" where
  "jadd NaN _ = NaN"
| "jadd _ NaN = NaN"
| "jadd (Num x) (Num y) = Num (x + y)"
| "jadd PInf NInf = NaN"
| "jadd NInf PInf = NaN"
| "jadd PInf _ = PInf"
| "jadd _ PInf = PInf"
| "jadd NInf _ = NInf"
| "jadd _ NInf = NInf"

definition jsub :: "jsnum \<Rightarrow> jsnum \<Rightarrow> jsnum" where
  "jsub a b = jadd a (jneg b)"

text \<open>The sign of a number that is not NaN, as a real in \<open>{-1, 0, 1}\<close>.\<close>

fun jsign :: "jsnum \<Rightarrow> real" where
  "jsign (Num x) = sgn x"
| "jsign PInf = 1"
| "jsign NInf = - 1"
| "jsign NaN = 0"

definition signed_inf :: "real \<Rightarrow> jsnum" where
  "signed_inf s = (if s = 0 then NaN else if 0 < s then PInf else NInf)"

fun jmul :: "jsnum \<Rightarrow> jsnum \<Rightarrow> jsnum" where
  "jmul NaN _ = NaN"
| "jmul _ NaN = NaN"
| "jmul (Num x) (Num y) = Num (x * y)"
| "jmul a b = signed_inf (jsign a * jsign b)"

fun jdiv :: "jsnum \<Rightarrow> jsnum \<Rightarrow> jsnum" where
  "jdiv NaN _ = NaN"
| "jdiv _ NaN = NaN"
| "jdiv (Num x) (Num y) = (if y = 0 then signed_inf (sgn x) else Num (x / y))"
| "jdiv (Num x) _ = Num 0"
| "jdiv a (Num y) = signed_inf (jsign a * (if y < 0 then - 1 else 1))"
| "jdiv _ _ = NaN"

text \<open>\<open>Math.trunc\<close> on a real, and the remainder operator \<open>%\<close>, whose result has the
  sign of the dividend.\<close>

definition rtrunc :: "real \<Rightarrow> int" where
  "rtrunc x = (if 0 \<le> x then \<lfloor>x\<rfloor> else \<lceil>x\<rceil>)"

fun jrem :: "jsnum \<Rightarrow> jsnum \<Rightarrow> jsnum" where
  "jrem (Num x) (Num y) = (if y = 0 then NaN else Num (x - y * of_int (rtrunc (x / y))))"
| "jrem (Num x) PInf = Num x"
| "jrem (Num x) NInf = Num x"
| "jrem _ _ = NaN"

fun jfloor :: "jsnum \<Rightarrow> jsnum" where
  "jfloor (Num x) = Num (of_int \<lfloor>x\<rfloor>)"
| "jfloor v = v"

fun jsqrt :: "jsnum \<Rightarrow> jsnum" where
  "jsqrt (Num x) = (if x < 0 then NaN else Num (sqrt x))"
| "jsqrt PInf = PInf"
| "jsqrt _ = NaN"

fun jcos :: "jsnum \<Rightarrow> jsnum" where
  "jcos (Num x) = Num (cos x)"
| "jcos _ = NaN"

fun jsin :: "jsnum \<Rightarrow> jsnum" where
  "jsin (Num x) = Num (sin x)"
| "jsin _ = NaN"

text \<open>\<open>Math.atan2(y, x)\<close> on finite arguments, with its result in \<open>(-\<pi>, \<pi>]\<close>.\<close>

definition atan2 :: "real \<Rightarrow> real \<Rightarrow> real" where
  "atan2 y x =
     (if 0 < x then arctan (y / x)
      else if x < 0 then (if 0 \<le> y then arctan (y / x) + pi else arctan (y / x) - pi)
      else if 0 < y then pi / 2
      else if y < 0 then - (pi / 2)
      else 0)"

fun jatan2 :: "jsnum \<Rightarrow> jsnum \<Rightarrow> jsnum" where
  "jatan2 NaN _ = NaN"
| "jatan2 _ NaN = NaN"
| "jatan2 (Num y) (Num x) = Num (atan2 y x)"
| "jatan2 (Num y) PInf = Num 0"
| "jatan2 (Num y) NInf = Num (if 0 \<le> y then pi else - pi)"
| "jatan2 PInf (Num x) = Num (pi / 2)"
| "jatan2 NInf (Num x) = Num (- (pi / 2))"
| "jatan2 PInf PInf = Num (pi / 4)"
| "jatan2 PInf NInf = Num (3 * pi / 4)"
| "jatan2 NInf PInf = Num (- (pi / 4))"
| "jatan2 NInf NInf = Num (- (3 * pi / 4))"

text \<open>
  A typed array (\<open>Float32Array\<close>, \<open>Float64Array\<close>) is a list of numbers of fixed
  length.  Reading outside it yields \<open>undefined\<close>, which every arithmetic use and every
  store into a float array turns into NaN; writing outside it is ignored.
\<close>

type_synonym buffer = "jsnum list"

definition rd :: "buffer \<Rightarrow> int \<Rightarrow> jsnum" where
  "rd a i = (if 0 \<le> i \<and> i < int (length a) then a ! nat i else NaN)"

definition wr :: "buffer \<Rightarrow> int \<Rightarrow> jsnum \<Rightarrow> buffer" where
  "wr a i v = (if 0 \<le> i \<and> i < int (length a) then a[nat i := v] else a)"

section \<open>Cyclic shift (fftshift module)\<close>

text \<open>
  \<open>reverse (src, from, to)\<close> is \<open>--from; while (++from < --to) { swap }\<close>.  The loop
  function takes the current values of \<open>from\<close> and \<open>to\<close> and performs the increment
  and the decrement of the loop test itself.
\<close>

function reverse_loop :: "buffer \<Rightarrow> int \<Rightarrow> int \<Rightarrow> buffer" where
  "reverse_loop src from to =
     (let from' = from + 1; to' = to - 1
      in if from' < to'
         then (let tmp = rd src from';
                   src1 = wr src from' (rd src to');
                   src2 = wr src1 to' tmp
               in reverse_loop src2 from' to')
         else src)"
  by pat_completeness auto
termination
  by (relation "measure (\<lambda>(src, from, to). nat (to - from))") auto

declare reverse_loop.simps [simp del]

definition reverse :: "buffer \<Rightarrow> int \<Rightarrow> int \<Rightarrow> buffer" where
  "reverse src from to = reverse_loop src (from - 1) to"

definition rotate_buf :: "buffer \<Rightarrow> int \<Rightarrow> buffer" where
  "rotate_buf src n =
     (let len = int (length src);
          s1 = reverse src 0 len;
          s2 = reverse s1 0 n
      in reverse s2 n len)"

definition fftshift :: "buffer \<Rightarrow> buffer" where
  "fftshift src = (let len = int (length src) in rotate_buf src \<lfloor>real_of_int len / 2\<rfloor>)"

definition ifftshift :: "buffer \<Rightarrow> buffer" where
  "ifftshift src = (let len = int (length src) in rotate_buf src \<lfloor>real_of_int (len + 1) / 2\<rfloor>)"

section \<open>Radix-2 FFT (fft-radix2 module)\<close>

text \<open>
  The bitwise operators convert their operands to 32-bit two's complement integers and
  yield such an integer.  Sizes and loop counters are integer-valued numbers, modelled as
  \<open>int\<close>, with the conversion written out at each bitwise operator.
\<close>

definition to_int32 :: "int \<Rightarrow> int" where
  "to_int32 v = (v + 2 ^ 31) mod 2 ^ 32 - 2 ^ 31"

definition band32 :: "int \<Rightarrow> int \<Rightarrow> int" where
  "band32 a b = to_int32 a AND to_int32 b"

definition shl32 :: "int \<Rightarrow> nat \<Rightarrow> int" where
  "shl32 a k = to_int32 (to_int32 a * 2 ^ k)"

definition sar32 :: "int \<Rightarrow> nat \<Rightarrow> int" where
  "sar32 a k = to_int32 a div 2 ^ k"

definition isPow2 :: "int \<Rightarrow> bool" where
  "isPow2 v = (band32 v (v - 1) = 0 \<and> v \<noteq> 0)"

datatype error =
    NotPow2 int
  | RealLength int nat
  | ImagLength int nat
  | RangeError
  | FramesRequired

text \<open>
  \<open>new Float64Array (n)\<close> (and \<open>Float32Array\<close>): the length is the number truncated
  towards zero; a negative length or one above \<open>2^53 - 1\<close> raises a RangeError.  Memory
  is not bounded in the model.
\<close>

definition zeros :: "real \<Rightarrow> error + buffer" where
  "zeros n =
     (let k = rtrunc n
      in if k < 0 \<or> 2 ^ 53 - 1 < k then Inl RangeError
         else Inr (replicate (nat k) (Num 0)))"

text \<open>
  A \<open>Uint32Array\<close> holds naturals below \<open>2^32\<close>.  Storing the sum of an element and an
  integer stores it modulo \<open>2^32\<close>; the sum with a missing element is NaN, stored as 0.
\<close>

definition zeros_u32 :: "int \<Rightarrow> error + nat list" where
  "zeros_u32 n =
     (if n < 0 \<or> 2 ^ 53 - 1 < n then Inl RangeError else Inr (replicate (nat n) 0))"

definition rdu :: "nat list \<Rightarrow> int \<Rightarrow> nat option" where
  "rdu a i = (if 0 \<le> i \<and> i < int (length a) then Some (a ! nat i) else None)"

definition wru :: "nat list \<Rightarrow> int \<Rightarrow> nat \<Rightarrow> nat list" where
  "wru a i v = (if 0 \<le> i \<and> i < int (length a) then a[nat i := v] else a)"

definition u32_sum :: "nat option \<Rightarrow> int \<Rightarrow> nat" where
  "u32_sum v b = (case v of None \<Rightarrow> 0 | Some x \<Rightarrow> nat ((int x + b) mod 2 ^ 32))"

record tables =
  tsize :: int
  reverseTable :: "nat list"
  sinTable :: buffer
  cosTable :: buffer

text \<open>
  The loop \<open>while (limit < size)\<close> of \<open>tables\<close>, which fills the bit-reversal table.
  It has no bound of its own, so not returning is the value \<open>None\<close>.
\<close>

definition fill_reverse :: "nat list \<Rightarrow> int \<Rightarrow> int \<Rightarrow> nat list" where
  "fill_reverse rt limit bt =
     fold (\<lambda>i tbl. wru tbl (int i + limit) (u32_sum (rdu tbl (int i)) bt)) [0..<nat limit] rt"

partial_function (option) tables_loop :: "int \<Rightarrow> nat list \<Rightarrow> int \<Rightarrow> int \<Rightarrow> nat list option" where
  "tables_loop sz rt limit bt =
     (if limit < sz
      then tables_loop sz (fill_reverse rt limit bt) (shl32 limit 1) (sar32 bt 1)
      else Some rt)"

definition tables :: "int \<Rightarrow> (error + tables) option" where
  "tables sz =
     (if \<not> isPow2 sz then Some (Inl (NotPow2 sz))
      else case zeros_u32 sz of
             Inl e \<Rightarrow> Some (Inl e)
           | Inr rt0 \<Rightarrow>
               (case tables_loop sz rt0 1 (sar32 sz 1) of
                  None \<Rightarrow> None
                | Some rt \<Rightarrow>
                    Some (Inr \<lparr>tsize = sz, reverseTable = rt,
                      sinTable = map (\<lambda>i. jsin (jdiv (Num (- pi)) (Num (real i)))) [0..<nat sz],
                      cosTable = map (\<lambda>i. jcos (jdiv (Num (- pi)) (Num (real i)))) [0..<nat sz]\<rparr>)))"

text \<open>
  \<open>fft (size)\<close> builds the tables and returns the pair of closures \<open>forward\<close> and
  \<open>inverse\<close> over them; the transform object is represented by its tables.
\<close>

definition fft :: "int \<Rightarrow> (error + tables) option" where
  "fft sz = tables sz"

text \<open>
  \<open>process\<close> reads its input buffers and writes its output buffers, which the caller may
  or may not share.  Buffers therefore live in a store: a list of buffers, a reference
  being an index into it; an allocation appends a buffer.  Two references are the same
  buffer exactly when they are equal.
\<close>

type_synonym heap = "buffer list"

definition hrd :: "heap \<Rightarrow> nat \<Rightarrow> int \<Rightarrow> jsnum" where
  "hrd h a i = rd (h ! a) i"

definition hwr :: "heap \<Rightarrow> nat \<Rightarrow> int \<Rightarrow> jsnum \<Rightarrow> heap" where
  "hwr h a i v = h[a := wr (h ! a) i v]"

text \<open>\<open>rs[reverseTable[i]]\<close>: a missing table entry indexes with \<open>undefined\<close>.\<close>

definition hrd_at :: "heap \<Rightarrow> nat \<Rightarrow> nat option \<Rightarrow> jsnum" where
  "hrd_at h a j = (case j of None \<Rightarrow> NaN | Some k \<Rightarrow> hrd h a (int k))"

text \<open>The input is a bare array of real samples or an object \<open>{real, imag}\<close>.\<close>

datatype fft_input = RealSignal nat | ComplexFrame nat nat

definition resolve_input :: "int \<Rightarrow> fft_input \<Rightarrow> heap \<Rightarrow> error + (nat \<times> nat) \<times> heap" where
  "resolve_input sz input h =
     (case input of
        ComplexFrame a b \<Rightarrow> Inr ((a, b), h)
      | RealSignal a \<Rightarrow>
          (case zeros (of_int sz) of
             Inl e \<Rightarrow> Inl e
           | Inr z \<Rightarrow> Inr ((a, length h), h @ [z])))"

definition resolve_output :: "int \<Rightarrow> (nat \<times> nat) option \<Rightarrow> heap \<Rightarrow> error + (nat \<times> nat) \<times> heap" where
  "resolve_output sz output h =
     (case output of
        Some out \<Rightarrow> Inr (out, h)
      | None \<Rightarrow>
          (case zeros (of_int sz) of
             Inl e \<Rightarrow> Inl e
           | Inr z \<Rightarrow> Inr ((length h, length h + 1), h @ [z, z])))"

definition bit_reverse_copy ::
    "int \<Rightarrow> nat list \<Rightarrow> nat \<Rightarrow> nat \<Rightarrow> nat \<Rightarrow> nat \<Rightarrow> int \<Rightarrow> heap \<Rightarrow> heap" where
  "bit_reverse_copy dir rev_tbl rs ims re im sz h =
     fold (\<lambda>i h.
        let h1 = hwr h re (int i) (hrd_at h rs (rdu rev_tbl (int i)));
            h2 = hwr h1 im (int i) (jmul (Num (of_int dir)) (hrd_at h1 ims (rdu rev_tbl (int i))))
        in h2) [0..<nat sz] h"

text \<open>The body of the innermost loop: one butterfly on the elements \<open>i\<close> and
  \<open>i + halfSize\<close> of the output arrays.\<close>

definition butterfly :: "nat \<Rightarrow> nat \<Rightarrow> int \<Rightarrow> jsnum \<Rightarrow> jsnum \<Rightarrow> heap \<Rightarrow> int \<Rightarrow> heap" where
  "butterfly re im halfSize cr ci h i =
     (let off = i + halfSize;
          tr = jsub (jmul cr (hrd h re off)) (jmul ci (hrd h im off));
          ti = jadd (jmul cr (hrd h im off)) (jmul ci (hrd h re off));
          h1 = hwr h re off (jsub (hrd h re i) tr);
          h2 = hwr h1 im off (jsub (hrd h1 im i) ti);
          h3 = hwr h2 re i (jadd (hrd h2 re i) tr);
          h4 = hwr h3 im i (jadd (hrd h3 im i) ti)
      in h4)"

text \<open>The innermost loop \<open>while (i < size)\<close>, which advances \<open>i\<close> by
  \<open>halfSize << 1\<close>.\<close>

partial_function (option) butterflies ::
    "nat \<Rightarrow> nat \<Rightarrow> int \<Rightarrow> int \<Rightarrow> jsnum \<Rightarrow> jsnum \<Rightarrow> heap \<Rightarrow> int \<Rightarrow> heap option" where
  "butterflies re im sz halfSize cr ci h i =
     (if i < sz
      then butterflies re im sz halfSize cr ci (butterfly re im halfSize cr ci h i)
             (i + shl32 halfSize 1)
      else Some h)"

text \<open>The loop \<open>for (fftStep = 0; fftStep < halfSize; fftStep++)\<close>, over the list of
  its counter values; the state is the store and the current phase shift.\<close>

fun fft_steps ::
    "nat \<Rightarrow> nat \<Rightarrow> int \<Rightarrow> int \<Rightarrow> jsnum \<Rightarrow> jsnum \<Rightarrow> nat list \<Rightarrow> heap \<times> jsnum \<times> jsnum
      \<Rightarrow> (heap \<times> jsnum \<times> jsnum) option" where
  "fft_steps re im sz halfSize sr si [] s = Some s"
| "fft_steps re im sz halfSize sr si (fftStep # rest) (h, cr, ci) =
     (case butterflies re im sz halfSize cr ci h (int fftStep) of
        None \<Rightarrow> None
      | Some h' \<Rightarrow>
          fft_steps re im sz halfSize sr si rest
            (h', jsub (jmul cr sr) (jmul ci si), jadd (jmul cr si) (jmul ci sr)))"

text \<open>The outer loop \<open>while (halfSize < size)\<close>.\<close>

partial_function (option) fft_stages :: "tables \<Rightarrow> nat \<Rightarrow> nat \<Rightarrow> heap \<Rightarrow> int \<Rightarrow> heap option" where
  "fft_stages t re im h halfSize =
     (if halfSize < tsize t
      then (case fft_steps re im (tsize t) halfSize
                   (rd (cosTable t) halfSize) (rd (sinTable t) halfSize)
                   [0..<nat halfSize] (h, Num 1, Num 0) of
              None \<Rightarrow> None
            | Some s \<Rightarrow> fft_stages t re im (fst s) (shl32 halfSize 1))
      else Some h)"

definition normalize_out :: "nat \<Rightarrow> nat \<Rightarrow> int \<Rightarrow> heap \<Rightarrow> heap" where
  "normalize_out re im sz h =
     fold (\<lambda>i h.
        let h1 = hwr h re (int i) (jdiv (hrd h re (int i)) (Num (of_int sz)));
            h2 = hwr h1 im (int i) (jdiv (hrd h1 im (int i)) (Num (of_int sz)))
        in h2) [0..<nat sz] h"

definition process ::
    "int \<Rightarrow> tables \<Rightarrow> fft_input \<Rightarrow> (nat \<times> nat) option \<Rightarrow> heap
      \<Rightarrow> (error + (nat \<times> nat) \<times> heap) option" where
  "process dir t input output h =
     (let sz = tsize t
      in case resolve_input sz input h of
           Inl e \<Rightarrow> Some (Inl e)
         | Inr ((rs, ims), h0) \<Rightarrow>
             if int (length (h0 ! rs)) \<noteq> sz then Some (Inl (RealLength sz (length (h0 ! rs))))
             else if int (length (h0 ! ims)) \<noteq> sz
               then Some (Inl (ImagLength sz (length (h0 ! ims))))
             else (case resolve_output sz output h0 of
                     Inl e \<Rightarrow> Some (Inl e)
                   | Inr ((re, im), h1) \<Rightarrow>
                       (case fft_stages t re im
                               (bit_reverse_copy dir (reverseTable t) rs ims re im sz h1) 1 of
                          None \<Rightarrow> None
                        | Some h2 \<Rightarrow>
                            Some (Inr ((re, im),
                              if dir = - 1 then normalize_out re im sz h2 else h2)))))"

definition forward ::
    "tables \<Rightarrow> fft_input \<Rightarrow> (nat \<times> nat) option \<Rightarrow> heap \<Rightarrow> (error + (nat \<times> nat) \<times> heap) option" where
  "forward t input output h = process 1 t input output h"

definition inverse_fft ::
    "tables \<Rightarrow> fft_input \<Rightarrow> (nat \<times> nat) option \<Rightarrow> heap \<Rightarrow> (error + (nat \<times> nat) \<times> heap) option" where
  "inverse_fft t input output h = process (- 1) t input output h"

section \<open>Array helpers (array module)\<close>

text \<open>The counter values of \<open>for (i = 0; i < N; i++)\<close> for a finite number \<open>N\<close>.\<close>

definition count_below :: "real \<Rightarrow> nat list" where
  "count_below N = [0..<nat \<lceil>N\<rceil>]"

text \<open>\<open>fill (N, fn)\<close> with two arguments: a new array, each element from the generator.\<close>

definition fill :: "int \<Rightarrow> (int \<Rightarrow> int \<Rightarrow> jsnum) \<Rightarrow> error + buffer" where
  "fill N fn =
     (case zeros (of_int N) of
        Inl e \<Rightarrow> Inl e
      | Inr out \<Rightarrow> Inr (fold (\<lambda>n out. wr out (int n) (fn (int n) N)) (count_below (of_int N)) out))"

text \<open>
  \<open>mult (N, a, b, out)\<close> and \<open>add (N, a, b, out)\<close> are only called with \<open>out\<close> and \<open>b\<close>
  the same array, so the result is the new content of that array.  For \<open>add\<close> the
  array is the view \<open>output.subarray (position, position + hopS)\<close>, given by its offset
  and length within \<open>output\<close>.
\<close>

definition mult :: "real \<Rightarrow> buffer \<Rightarrow> buffer \<Rightarrow> buffer" where
  "mult N a b = fold (\<lambda>i out. wr out (int i) (jmul (rd a (int i)) (rd out (int i)))) (count_below N) b"

text \<open>\<open>subarray (begin, end)\<close> of an array of length \<open>len\<close>: offset and length of the view.\<close>

definition rel_index :: "real \<Rightarrow> nat \<Rightarrow> nat" where
  "rel_index x len =
     (let k = rtrunc x in if k < 0 then nat (max (int len + k) 0) else nat (min k (int len)))"

definition subarray :: "nat \<Rightarrow> real \<Rightarrow> real \<Rightarrow> nat \<times> nat" where
  "subarray len begin end = (rel_index begin len, rel_index end len - rel_index begin len)"

definition view_rd :: "buffer \<Rightarrow> nat \<times> nat \<Rightarrow> nat \<Rightarrow> jsnum" where
  "view_rd out v i = (if i < snd v then rd out (int (fst v + i)) else NaN)"

definition view_wr :: "buffer \<Rightarrow> nat \<times> nat \<Rightarrow> nat \<Rightarrow> jsnum \<Rightarrow> buffer" where
  "view_wr out v i x = (if i < snd v then wr out (int (fst v + i)) x else out)"

definition add :: "real \<Rightarrow> buffer \<Rightarrow> buffer \<Rightarrow> nat \<times> nat \<Rightarrow> buffer" where
  "add N a out v = fold (\<lambda>i out. view_wr out v i (jadd (rd a (int i)) (view_rd out v i))) (count_below N) out"

text \<open>\<open>frame.set (source)\<close> copies the source to the start of the array and raises a
  RangeError when the source is longer.\<close>

definition typed_set :: "buffer \<Rightarrow> buffer \<Rightarrow> error + buffer" where
  "typed_set frame src =
     (if length frame < length src then Inl RangeError else Inr (src @ drop (length src) frame))"

text \<open>\<open>new Array (n)\<close>: a length that is not an integer in \<open>[0, 2^32 - 1]\<close> raises a
  RangeError.\<close>

definition new_Array :: "jsnum \<Rightarrow> error + nat" where
  "new_Array n =
     (case n of
        Num x \<Rightarrow> if of_int \<lfloor>x\<rfloor> = x \<and> 0 \<le> x \<and> x \<le> 2 ^ 32 - 1 then Inr (nat \<lfloor>x\<rfloor>) else Inl RangeError
      | _ \<Rightarrow> Inl RangeError)"

section \<open>Spectrum helpers (spectrum module)\<close>

definition bandWidth :: "int \<Rightarrow> jsnum \<Rightarrow> jsnum" where
  "bandWidth sz sampleRate = jdiv (jmul (jdiv (Num 2) (Num (of_int sz))) sampleRate) (Num 2)"

definition bandFrequency :: "int \<Rightarrow> int \<Rightarrow> jsnum \<Rightarrow> jsnum" where
  "bandFrequency index sz sampleRate =
     (let width = bandWidth sz sampleRate
      in jadd (jmul width (Num (of_int index))) (jdiv width (Num 2)))"

record frame =
  magnitudes :: buffer
  phases :: buffer

text \<open>\<open>polar (result)\<close> with one argument: new arrays as long as \<open>result.real\<close>.\<close>

definition polar :: "buffer \<times> buffer \<Rightarrow> frame" where
  "polar result =
     (let real_part = fst result; imag_part = snd result;
          len = length real_part;
          out0 = \<lparr>magnitudes = replicate len (Num 0), phases = replicate len (Num 0)\<rparr>;
          limit = min len (length (magnitudes out0))
      in fold (\<lambda>i out.
            let rval = rd real_part (int i); ival = rd imag_part (int i)
            in out\<lparr>magnitudes := wr (magnitudes out) (int i) (jsqrt (jadd (jmul rval rval) (jmul ival ival))),
                   phases := wr (phases out) (int i) (jatan2 ival rval)\<rparr>)
          [0..<limit] out0)"

text \<open>\<open>rectangular (spectrum, complex)\<close> with both arguments: writes into the given pair
  of arrays.\<close>

definition rectangular :: "frame \<Rightarrow> buffer \<times> buffer \<Rightarrow> buffer \<times> buffer" where
  "rectangular spectrum cplx =
     (let sz = length (magnitudes spectrum);
          limit = min sz (length (fst cplx))
      in fold (\<lambda>i (re, im).
            (wr re (int i) (jmul (rd (magnitudes spectrum) (int i)) (jcos (rd (phases spectrum) (int i)))),
             wr im (int i) (jmul (rd (magnitudes spectrum) (int i)) (jsin (rd (phases spectrum) (int i))))))
          [0..<limit] cplx)"

section \<open>Window functions\<close>

definition hanning :: "int \<Rightarrow> int \<Rightarrow> jsnum" where
  "hanning n N =
     (let z = jdiv (jmul (Num (2 * pi)) (Num (of_int n))) (Num (of_int (N - 1)))
      in jmul (Num (1 / 2)) (jsub (Num 1) (jcos z)))"

section \<open>Phase vocoder (phase-vocoder module)\<close>

text \<open>
  \<open>recalcPhases (frames, {size, hop, factor, sampleRate}, omega)\<close>.  The frames of a
  sequence made by \<open>analysis\<close> are separate objects, so the sequence is a list of frames
  and the in-place update of frame \<open>i\<close> replaces element \<open>i\<close>.  The previous frame is read
  from the sequence as it is at that moment.
\<close>

definition recalc_frame :: "int \<Rightarrow> jsnum \<Rightarrow> jsnum \<Rightarrow> buffer \<Rightarrow> frame \<Rightarrow> frame \<Rightarrow> frame" where
  "recalc_frame sz original modified omega prev current =
     fold (\<lambda>b current.
        let deltaPhi = jsub (rd (phases current) (int b)) (rd (phases prev) (int b));
            freq = rd omega (int b);
            deltaFreq = jsub (jdiv deltaPhi original) freq;
            wrappedDeltaFreq = jsub (jrem (jadd deltaFreq (Num pi)) (Num (2 * pi))) (Num pi);
            realFreq = jadd freq wrappedDeltaFreq
        in current\<lparr>phases := wr (phases current) (int b)
                                (jadd (rd (phases prev) (int b)) (jmul modified realFreq))\<rparr>)
       [0..<nat sz] current"

definition recalcPhases ::
    "frame list \<Rightarrow> int \<Rightarrow> real \<Rightarrow> real \<Rightarrow> jsnum option \<Rightarrow> buffer \<Rightarrow> frame list" where
  "recalcPhases frames sz hop factor sampleRate omega =
     (let original = jdiv (Num hop) (to_number sampleRate);
          modified = jdiv (Num (hop * factor)) (to_number sampleRate);
          numFrames = length frames
      in fold (\<lambda>i frames. frames[i := recalc_frame sz original modified omega (frames ! (i - 1)) (frames ! i)])
           [2..<numFrames] frames)"

text \<open>
  \<open>randomPhases (frames, {size})\<close>.  \<open>Math.random\<close> is a sequence of reals in \<open>[0, 1)\<close>
  and a count of the numbers drawn so far.  \<open>size\<close> is \<open>None\<close> when the second argument
  has no property of that name; the test \<open>i < undefined\<close> is then false.
\<close>

definition random_frame :: "int option \<Rightarrow> (nat \<Rightarrow> real) \<Rightarrow> frame \<times> nat \<Rightarrow> frame \<times> nat" where
  "random_frame sz random s =
     fold (\<lambda>i (f, k). (f\<lparr>phases := wr (phases f) (int i) (jmul (Num (2 * pi)) (Num (random k)))\<rparr>, Suc k))
       (case sz of None \<Rightarrow> [] | Some n \<Rightarrow> [0..<nat n]) s"

definition randomPhases ::
    "frame list \<Rightarrow> int option \<Rightarrow> (nat \<Rightarrow> real) \<Rightarrow> nat \<Rightarrow> frame list \<times> nat" where
  "randomPhases frames sz random k =
     fold (\<lambda>n (frames, k).
        let (f, k') = random_frame sz random (frames ! n, k) in (frames[n := f], k'))
       [0..<length frames] (frames, k)"

text \<open>The options of \<open>analysis\<close>: \<open>windowFn\<close> and \<open>ft\<close> may be missing and then
  default to \<open>() => 1\<close> and \<open>fft (size)\<close>.  \<open>size\<close> is an integer and \<open>hop\<close> a finite
  number.\<close>

record analysis_opts =
  a_size :: int
  a_hop :: real
  a_windowFn :: "(int \<Rightarrow> int \<Rightarrow> jsnum) option"
  a_ft :: "tables option"

text \<open>One round of the loop of \<open>analysis\<close>.  The scratch arrays \<open>frame\<close>,
  \<open>fdFrame.real\<close> and \<open>fdFrame.imag\<close> are references 0, 1 and 2 of the store that the
  transform works on.\<close>

definition analysis_step ::
    "buffer \<Rightarrow> int \<Rightarrow> real \<Rightarrow> buffer \<Rightarrow> tables \<Rightarrow> nat \<Rightarrow> buffer \<times> buffer \<times> buffer
      \<Rightarrow> (error + frame \<times> buffer \<times> buffer \<times> buffer) option" where
  "analysis_step signal sz hop window ft i s =
     (let (frame, fd_real, fd_imag) = s;
          (off, cnt) = subarray (length signal) (real i * hop) (real i * hop + of_int sz)
      in case typed_set frame (take cnt (drop off signal)) of
           Inl e \<Rightarrow> Some (Inl e)
         | Inr frame1 \<Rightarrow>
             (let frame2 = mult (of_int sz) window frame1;
                  frame3 = fftshift frame2
              in case forward ft (RealSignal 0) (Some (1, 2)) [frame3, fd_real, fd_imag] of
                   None \<Rightarrow> None
                 | Some (Inl e) \<Rightarrow> Some (Inl e)
                 | Some (Inr (out, h)) \<Rightarrow>
                     Some (Inr (polar (h ! fst out, h ! snd out), h ! 0, h ! 1, h ! 2))))"

fun analysis_loop ::
    "buffer \<Rightarrow> int \<Rightarrow> real \<Rightarrow> buffer \<Rightarrow> tables \<Rightarrow> nat list \<Rightarrow> buffer \<times> buffer \<times> buffer
      \<Rightarrow> (error + frame list) option" where
  "analysis_loop signal sz hop window ft [] s = Some (Inr [])"
| "analysis_loop signal sz hop window ft (i # rest) s =
     (case analysis_step signal sz hop window ft i s of
        None \<Rightarrow> None
      | Some (Inl e) \<Rightarrow> Some (Inl e)
      | Some (Inr (f, s')) \<Rightarrow>
          (case analysis_loop signal sz hop window ft rest s' of
             None \<Rightarrow> None
           | Some (Inl e) \<Rightarrow> Some (Inl e)
           | Some (Inr fs) \<Rightarrow> Some (Inr (f # fs))))"

definition analysis :: "buffer \<Rightarrow> analysis_opts \<Rightarrow> (error + frame list) option" where
  "analysis signal opts =
     (let sz = a_size opts; hop = a_hop opts;
          windowFn = (case a_windowFn opts of None \<Rightarrow> (\<lambda>n N. Num 1) | Some w \<Rightarrow> w)
      in case (case a_ft opts of None \<Rightarrow> fft sz | Some t \<Rightarrow> Some (Inr t)) of
           None \<Rightarrow> None
         | Some (Inl e) \<Rightarrow> Some (Inl e)
         | Some (Inr ft) \<Rightarrow>
             (let numFrames = jfloor (jdiv (Num (of_int (int (length signal) - sz))) (Num hop))
              in case fill sz windowFn of
                   Inl e \<Rightarrow> Some (Inl e)
                 | Inr window \<Rightarrow>
                     (case new_Array numFrames of
                        Inl e \<Rightarrow> Some (Inl e)
                      | Inr n \<Rightarrow>
                          (case zeros (of_int sz) of
                             Inl e \<Rightarrow> Some (Inl e)
                           | Inr z \<Rightarrow> analysis_loop signal sz hop window ft [0..<n] (z, z, z)))))"

record synthesis_opts =
  s_ft :: tables
  s_size :: int
  s_hop :: real
  s_sampleRate :: "jsnum option"
  s_factor :: real

text \<open>One round of the loop of \<open>synthesis\<close>.  \<open>rectFD.real\<close>, \<open>rectFD.imag\<close>,
  \<open>timeDomain.real\<close> and \<open>timeDomain.imag\<close> are references 0 to 3 of the store that the
  transform works on.\<close>

record synthesis_state =
  out_buf :: buffer
  position :: real
  rectFD :: "buffer \<times> buffer"
  timeDomain :: "buffer \<times> buffer"

definition synthesis_step ::
    "tables \<Rightarrow> real \<Rightarrow> frame \<Rightarrow> synthesis_state \<Rightarrow> (error + synthesis_state) option" where
  "synthesis_step ft hopS f s =
     (let rect = rectangular f (rectFD s)
      in case inverse_fft ft (ComplexFrame 0 1) (Some (2, 3))
                [fst rect, snd rect, fst (timeDomain s), snd (timeDomain s)] of
           None \<Rightarrow> None
         | Some (Inl e) \<Rightarrow> Some (Inl e)
         | Some (Inr (out, h)) \<Rightarrow>
             (let signal = ifftshift (h ! fst out);
                  h' = h[fst out := signal];
                  write = subarray (length (out_buf s)) (position s) (position s + hopS)
              in Some (Inr \<lparr>out_buf = add hopS signal (out_buf s) write,
                            position = position s + hopS,
                            rectFD = (h' ! 0, h' ! 1),
                            timeDomain = (h' ! 2, h' ! 3)\<rparr>)))"

fun synthesis_loop ::
    "tables \<Rightarrow> real \<Rightarrow> frame list \<Rightarrow> synthesis_state \<Rightarrow> (error + synthesis_state) option" where
  "synthesis_loop ft hopS [] s = Some (Inr s)"
| "synthesis_loop ft hopS (f # rest) s =
     (case synthesis_step ft hopS f s of
        None \<Rightarrow> None
      | Some (Inl e) \<Rightarrow> Some (Inl e)
      | Some (Inr s') \<Rightarrow> synthesis_loop ft hopS rest s')"

definition synthesis ::
    "frame list \<Rightarrow> synthesis_opts \<Rightarrow> buffer option \<Rightarrow> (error + buffer) option" where
  "synthesis frames opts out =
     (if frames = [] then Some (Inl FramesRequired)
      else
        (let len = length frames;
             hopS = s_hop opts * s_factor opts
         in case (case out of Some b \<Rightarrow> Inr b
                            | None \<Rightarrow> zeros (real len * hopS + of_int (s_size opts))) of
              Inl e \<Rightarrow> Some (Inl e)
            | Inr out0 \<Rightarrow>
                (case zeros (of_int (s_size opts)) of
                   Inl e \<Rightarrow> Some (Inl e)
                 | Inr z \<Rightarrow>
                     (case synthesis_loop (s_ft opts) hopS frames
                             \<lparr>out_buf = out0, position = 0, rectFD = (z, z), timeDomain = (z, z)\<rparr> of
                        None \<Rightarrow> None
                      | Some (Inl e) \<Rightarrow> Some (Inl e)
                      | Some (Inr s) \<Rightarrow> Some (Inr (out_buf s))))))"

text \<open>The options of \<open>phaseVocoder\<close>, after the defaults for missing ones have been
  filled in.\<close>

record vocoder_opts =
  v_algorithm :: string
  v_size :: int
  v_hop :: real
  v_sampleRate :: jsnum
  v_windowFn :: "int \<Rightarrow> int \<Rightarrow> jsnum"

text \<open>
  \<open>phaseVocoder (options)\<close> computes the table \<open>omega\<close> of bin centre frequencies and
  the transform, and returns the function \<open>stretch\<close>; the vocoder is represented by what
  \<open>stretch\<close> closes over.
\<close>

record vocoder =
  p_opts :: vocoder_opts
  p_omega :: buffer
  p_ft :: tables

definition phaseVocoder :: "vocoder_opts \<Rightarrow> (error + vocoder) option" where
  "phaseVocoder opts =
     (case fill (v_size opts) (\<lambda>x N. bandFrequency x (v_size opts) (v_sampleRate opts)) of
        Inl e \<Rightarrow> Some (Inl e)
      | Inr omega \<Rightarrow>
          (case fft (v_size opts) of
             None \<Rightarrow> None
           | Some (Inl e) \<Rightarrow> Some (Inl e)
           | Some (Inr ft) \<Rightarrow> Some (Inr \<lparr>p_opts = opts, p_omega = omega, p_ft = ft\<rparr>)))"

text \<open>
  The phase tracking step of \<open>stretch\<close>:
  \<open>if (algorithm === 'phase-vocoder') recalcPhases (frames, { size, factor, hop }, omega)\<close>
  \<open>else if (algorithm === 'paul-stretch') randomPhases (frames, size)\<close>.
  The object passed to \<open>recalcPhases\<close> has no \<open>sampleRate\<close>, and the number passed to
  \<open>randomPhases\<close> has no property \<open>size\<close>.
\<close>

definition stretch_track ::
    "vocoder \<Rightarrow> real \<Rightarrow> frame list \<Rightarrow> (nat \<Rightarrow> real) \<Rightarrow> frame list" where
  "stretch_track pv factor frames random =
     (let opts = p_opts pv
      in if v_algorithm opts = ''phase-vocoder''
           then recalcPhases frames (v_size opts) (v_hop opts) factor None (p_omega pv)
         else if v_algorithm opts = ''paul-stretch''
           then fst (randomPhases frames None random 0)
         else frames)"

text \<open>The frames that \<open>stretch\<close> hands to \<open>synthesis\<close>: analysis, the caller's hook if
  there is one, then phase tracking.\<close>

definition stretch_frames ::
    "vocoder \<Rightarrow> real \<Rightarrow> buffer \<Rightarrow> (frame list \<Rightarrow> frame list) option \<Rightarrow> (nat \<Rightarrow> real)
      \<Rightarrow> (error + frame list) option" where
  "stretch_frames pv factor signal timeFreqProccessing random =
     (let opts = p_opts pv
      in case analysis signal
                \<lparr>a_size = v_size opts, a_hop = v_hop opts,
                 a_windowFn = Some (v_windowFn opts), a_ft = Some (p_ft pv)\<rparr> of
           None \<Rightarrow> None
         | Some (Inl e) \<Rightarrow> Some (Inl e)
         | Some (Inr frames) \<Rightarrow>
             (let frames1 = (case timeFreqProccessing of None \<Rightarrow> frames | Some g \<Rightarrow> g frames)
              in Some (Inr (stretch_track pv factor frames1 random))))"

definition stretch ::
    "vocoder \<Rightarrow> real \<Rightarrow> buffer \<Rightarrow> buffer option \<Rightarrow> (frame list \<Rightarrow> frame list) option
      \<Rightarrow> (nat \<Rightarrow> real) \<Rightarrow> (error + buffer) option" where
  "stretch pv factor signal out timeFreqProccessing random =
     (let opts = p_opts pv
      in case stretch_frames pv factor signal timeFreqProccessing random of
           None \<Rightarrow> None
         | Some (Inl e) \<Rightarrow> Some (Inl e)
         | Some (Inr frames) \<Rightarrow>
             synthesis frames
               \<lparr>s_ft = p_ft pv, s_size = v_size opts, s_hop = v_hop opts,
                s_sampleRate = Some (v_sampleRate opts), s_factor = factor\<rparr> out)"

section \<open>Notions used in the statements\<close>

text \<open>\<open>modifies_only A h h'\<close>: the store \<open>h'\<close> has the buffers of \<open>h\<close>, each of
  the same length, and differs from \<open>h\<close> at most in the buffers with a reference in
  \<open>A\<close>.\<close>

definition modifies_only :: "nat set \<Rightarrow> heap \<Rightarrow> heap \<Rightarrow> bool" where
  "modifies_only A h h' \<longleftrightarrow>
     length h' = length h \<and>
     (\<forall>a<length h. length (h' ! a) = length (h ! a)) \<and>
     (\<forall>a<length h. a \<notin> A \<longrightarrow> h' ! a = h ! a)"

text \<open>Values used in the instances of the statements: the tables of the transform of
  size 2, as \<open>fft 2\<close> returns them, and the ramp signal \<open>[0, 1, ..., 15]\<close>.\<close>

definition example_ft2 :: tables where
  "example_ft2 =
     \<lparr>tsize = 2, reverseTable = [0, 1], sinTable = [NaN, Num 0], cosTable = [NaN, Num (- 1)]\<rparr>"

definition ramp16 :: buffer where
  "ramp16 = map (\<lambda>i. Num (real i)) [0..<16]"

text \<open>The tables of the transform of size 4, as \<open>fft 4\<close> returns them, and two
  vocoders as \<open>phaseVocoder\<close> returns them: one with algorithm \<open>paul-stretch\<close>, size 4,
  hop 2 and a window of ones, one with algorithm \<open>phase-vocoder\<close>, size 2, hop 1 and the
  Hann window.\<close>

definition example_ft4 :: tables where
  "example_ft4 =
     \<lparr>tsize = 4, reverseTable = [0, 2, 1, 3],
      sinTable = [NaN, Num 0, Num (- 1), Num (sin (- pi / 3))],
      cosTable = [NaN, Num (- 1), Num 0, Num (cos (- pi / 3))]\<rparr>"

definition paul_opts :: vocoder_opts where
  "paul_opts =
     \<lparr>v_algorithm = ''paul-stretch'', v_size = 4, v_hop = 2, v_sampleRate = Num 4,
      v_windowFn = (\<lambda>n N. Num 1)\<rparr>"

definition paul_vocoder :: vocoder where
  "paul_vocoder =
     \<lparr>p_opts = paul_opts,
      p_omega = [Num (1 / 2), Num (3 / 2), Num (5 / 2), Num (7 / 2)],
      p_ft = example_ft4\<rparr>"

definition pv_opts :: vocoder_opts where
  "pv_opts =
     \<lparr>v_algorithm = ''phase-vocoder'', v_size = 2, v_hop = 1, v_sampleRate = Num 2,
      v_windowFn = hanning\<rparr>"

definition pv_vocoder :: vocoder where
  "pv_vocoder = \<lparr>p_opts = pv_opts, p_omega = [Num (1 / 2), Num (3 / 2)], p_ft = example_ft2\<rparr>"



section \<open>Properties of the cyclic shift\<close>

lemma floor_half: "\<lfloor>real_of_int k / 2\<rfloor> = k div 2"
  using floor_divide_of_int_eq [of k 2, where ?'a = real] by simp

lemma floor_half_nat: "\<lfloor>real n / 2\<rfloor> = int n div 2"
  using floor_half [of "int n"] by simp

lemma floor_half_Suc: "\<lfloor>(real n + 1) / 2\<rfloor> = (int n + 1) div 2"
  using floor_half [of "int n + 1"] by simp

lemma length_wr [simp]: "length (wr a i v) = length a"
  by (simp add: wr_def)

lemma length_reverse_loop [simp]: "length (reverse_loop src from to) = length src"
proof (induction src "from" to rule: reverse_loop.induct)
  case (1 src "from" to)
  show ?case
  proof (cases "from + 1 < to - 1")
    case True
    then show ?thesis
      using "1.IH" [OF refl refl True refl refl refl]
      by (subst reverse_loop.simps) (simp add: Let_def)
  next
    case False
    then show ?thesis by (subst reverse_loop.simps) (simp add: Let_def)
  qed
qed

lemma nth_reverse_loop:
  "0 \<le> from + 1 \<Longrightarrow> to \<le> int (length src) \<Longrightarrow> i < length src \<Longrightarrow>
   reverse_loop src from to ! i =
     (if from + 1 \<le> int i \<and> int i < to then src ! nat (from + to - int i) else src ! i)"
proof (induction src "from" to rule: reverse_loop.induct)
  case (1 src "from" to)
  show ?case
  proof (cases "from + 1 < to - 1")
    case True
    let ?s2 = "wr (wr src (from + 1) (rd src (to - 1))) (to - 1) (rd src (from + 1))"
    have step: "reverse_loop src from to = reverse_loop ?s2 (from + 1) (to - 1)"
      using True by (subst reverse_loop.simps) (simp add: Let_def)
    have ih: "reverse_loop ?s2 (from + 1) (to - 1) ! i =
        (if from + 1 + 1 \<le> int i \<and> int i < to - 1
         then ?s2 ! nat (from + 1 + (to - 1) - int i) else ?s2 ! i)"
      using "1.IH" [OF refl refl True refl refl refl] "1.prems" True by simp
    have s2: "\<And>j. j < length src \<Longrightarrow> ?s2 ! j =
        (if int j = to - 1 then src ! nat (from + 1)
         else if int j = from + 1 then src ! nat (to - 1) else src ! j)"
      using "1.prems" True by (auto simp: wr_def rd_def nth_list_update)
    show ?thesis
    proof (cases "from + 1 + 1 \<le> int i \<and> int i < to - 1")
      case inner: True
      have "nat (from + to - int i) < length src"
        using inner "1.prems" by linarith
      then show ?thesis
        using inner "1.prems" True unfolding step ih
        by (simp add: s2 nat_eq_iff)
    next
      case outer: False
      show ?thesis
        using outer "1.prems" True unfolding step ih
        by (auto simp: s2 nat_eq_iff)
    qed
  next
    case False
    then have "reverse_loop src from to = src"
      by (subst reverse_loop.simps) (simp add: Let_def)
    moreover have "from + 1 \<le> int i \<and> int i < to \<Longrightarrow> nat (from + to - int i) = i"
      using False by linarith
    ultimately show ?thesis by auto
  qed
qed

lemma length_reverse [simp]: "length (reverse src from to) = length src"
  by (simp add: reverse_def)

lemma nth_reverse:
  "0 \<le> from \<Longrightarrow> to \<le> int (length src) \<Longrightarrow> i < length src \<Longrightarrow>
   reverse src from to ! i =
     (if from \<le> int i \<and> int i < to then src ! nat (from + to - 1 - int i) else src ! i)"
  using nth_reverse_loop [of "from - 1" to src i]
  by (simp add: reverse_def algebra_simps)

lemma length_rotate_buf [simp]: "length (rotate_buf src n) = length src"
  by (simp add: rotate_buf_def Let_def)

lemma nth_rotate_buf:
  assumes "0 \<le> n" and "n \<le> int (length src)" and "i < length src"
  shows "rotate_buf src n ! i =
     (if int i < n then src ! nat (int (length src) - n + int i) else src ! nat (int i - n))"
proof -
  let ?len = "int (length src)"
  let ?s1 = "reverse src 0 ?len"
  let ?s2 = "reverse ?s1 0 n"
  have s1: "\<And>j. j < length src \<Longrightarrow> ?s1 ! j = src ! nat (?len - 1 - int j)"
    by (simp add: nth_reverse)
  have s2: "\<And>j. j < length src \<Longrightarrow>
      ?s2 ! j = (if int j < n then src ! nat (?len - n + int j) else src ! nat (?len - 1 - int j))"
  proof -
    fix j assume j: "j < length src"
    show "?s2 ! j = (if int j < n then src ! nat (?len - n + int j)
                     else src ! nat (?len - 1 - int j))"
    proof (cases "int j < n")
      case True
      then have "nat (n - 1 - int j) < length src" using assms j by linarith
      moreover have "nat (?len - 1 - int (nat (n - 1 - int j))) = nat (?len - n + int j)"
        using True by simp
      moreover have "nat (0 + n - 1 - int j) = nat (n - 1 - int j)" by simp
      ultimately show ?thesis using True assms j
        by (simp only: nth_reverse [of 0 n "reverse src 0 ?len" j] s1 length_reverse) simp
    next
      case False
      then show ?thesis using assms j by (simp add: nth_reverse s1)
    qed
  qed
  show ?thesis
  proof (cases "int i < n")
    case True
    then show ?thesis using assms
      by (simp add: rotate_buf_def Let_def nth_reverse s2) (simp add: algebra_simps)
  next
    case False
    then have lt: "nat (n + ?len - 1 - int i) < length src" using assms by linarith
    have ge: "\<not> int (nat (n + ?len - 1 - int i)) < n" using False assms by linarith
    have "?len - 1 - int (nat (n + ?len - 1 - int i)) = int i - n"
      using False assms by linarith
    then show ?thesis using False assms lt ge
      by (simp add: rotate_buf_def Let_def nth_reverse s2)
  qed
qed

text \<open>
  C5.  For every buffer, of any length (zero and odd lengths included), \<open>fftshift\<close>
  followed by \<open>ifftshift\<close> returns the buffer element for element: the two rotations
  only move elements, by \<open>\<lfloor>N/2\<rfloor>\<close> and \<open>\<lfloor>(N+1)/2\<rfloor>\<close> places.
\<close>

theorem ifftshift_fftshift: "ifftshift (fftshift x) = x"
proof (rule nth_equalityI)
  show "length (ifftshift (fftshift x)) = length x"
    by (simp add: ifftshift_def fftshift_def Let_def)
next
  fix i assume "i < length (ifftshift (fftshift x))"
  then have i: "i < length x"
    by (simp add: ifftshift_def fftshift_def Let_def)
  let ?len = "int (length x)"
  let ?h = "?len div 2"
  let ?h' = "(?len + 1) div 2"
  have bounds: "0 \<le> ?h" "?h \<le> ?len" "0 \<le> ?h'" "?h' \<le> ?len" "?h + ?h' = ?len"
    using i by linarith+
  let ?y = "rotate_buf x ?h"
  have y: "\<And>j. j < length x \<Longrightarrow>
      ?y ! j = (if int j < ?h then x ! nat (?len - ?h + int j) else x ! nat (int j - ?h))"
    using bounds by (simp add: nth_rotate_buf)
  have "rotate_buf ?y ?h' ! i = x ! i"
  proof (cases "int i < ?h'")
    case True
    then have "nat (?len - ?h' + int i) < length x" using bounds i by linarith
    moreover have "\<not> int (nat (?len - ?h' + int i)) < ?h" using bounds by linarith
    moreover have "nat (int (nat (?len - ?h' + int i)) - ?h) = i" using bounds by linarith
    ultimately show ?thesis using True bounds i
      by (simp add: nth_rotate_buf y)
  next
    case False
    then have "nat (int i - ?h') < length x" using bounds i by linarith
    moreover have "int (nat (int i - ?h')) < ?h" using False bounds i by linarith
    moreover have "nat (?len - ?h + int (nat (int i - ?h'))) = i" using False bounds by linarith
    ultimately show ?thesis using False bounds i
      by (simp add: nth_rotate_buf y)
  qed
  then show "ifftshift (fftshift x) ! i = x ! i"
    by (simp add: ifftshift_def fftshift_def Let_def floor_half_nat floor_half_Suc)
qed

section \<open>32-bit integer operations and the power-of-two test\<close>

lemma to_int32_id: "- 2147483648 \<le> v \<Longrightarrow> v < 2147483648 \<Longrightarrow> to_int32 v = v"
  by (simp add: to_int32_def)

lemma and_pred_rec: "(v::int) AND (v - 1) = 2 * ((v div 2) AND ((v - 1) div 2))"
  by (subst and_rec) auto

lemma pow2_and_pred:
  "0 < v \<Longrightarrow> (v AND (v - 1) = 0) = (\<exists>k. v = 2 ^ k)" for v :: int
proof (induction "nat v" arbitrary: v rule: less_induct)
  case less
  show ?case
  proof (cases "even v")
    case True
    then obtain q where q: "v = 2 * q" by (auto elim: evenE)
    with less.prems have qpos: "0 < q" by simp
    have ih: "(q AND (q - 1) = 0) = (\<exists>k. q = 2 ^ k)"
      using less.hyps [of q] qpos q by simp
    have "(v - 1) div 2 = q - 1" using q by simp
    then have "v AND (v - 1) = 2 * (q AND (q - 1))"
      using and_pred_rec [of v] q by simp
    then have "(v AND (v - 1) = 0) = (\<exists>k. q = 2 ^ k)" using ih by simp
    also have "\<dots> = (\<exists>k. v = 2 ^ k)"
    proof
      assume "\<exists>k. q = 2 ^ k"
      then obtain k where "q = 2 ^ k" ..
      then have "v = 2 ^ Suc k" using q by simp
      then show "\<exists>k. v = 2 ^ k" ..
    next
      assume "\<exists>k. v = 2 ^ k"
      then obtain k where k: "v = 2 ^ k" ..
      with True have "k \<noteq> 0" by (cases k) auto
      then obtain j where "k = Suc j" by (cases k) auto
      with k q have "q = 2 ^ j" by simp
      then show "\<exists>k. q = 2 ^ k" ..
    qed
    finally show ?thesis .
  next
    case False
    then obtain q where q: "v = 2 * q + 1" by (auto elim: oddE)
    with less.prems have qnn: "0 \<le> q" by simp
    have "(v - 1) div 2 = q" "v div 2 = q" using q by simp_all
    then have "v AND (v - 1) = 2 * q"
      using and_pred_rec [of v] by simp
    then have "(v AND (v - 1) = 0) = (v = 1)" using q by auto
    also have "\<dots> = (\<exists>k. v = 2 ^ k)"
    proof
      assume "v = 1" then have "v = 2 ^ 0" by simp
      then show "\<exists>k. v = 2 ^ k" ..
    next
      assume "\<exists>k. v = 2 ^ k"
      then obtain k where k: "v = 2 ^ k" ..
      with False have "k = 0" by (cases k) auto
      with k show "v = 1" by simp
    qed
    finally show ?thesis .
  qed
qed

lemma isPow2_iff:
  assumes "0 \<le> v" and "v < 2 ^ 31"
  shows "isPow2 v = (\<exists>k. v = 2 ^ k)"
proof (cases "v = 0")
  case True
  then show ?thesis by (simp add: isPow2_def)
next
  case False
  with assms have pos: "0 < v" by simp
  have "to_int32 v = v" "to_int32 (v - 1) = v - 1"
    using assms by (simp_all add: to_int32_id)
  then show ?thesis
    using pow2_and_pred [OF pos] False by (simp add: isPow2_def band32_def)
qed

lemma pow2_bound: "j < n \<Longrightarrow> (2::int) ^ j < 2 ^ n"
  by (rule power_strict_increasing) simp_all

lemma pow2_bound31: "j < 31 \<Longrightarrow> (2::int) ^ j < 2147483648"
  using pow2_bound [of j 31] by simp

lemma shl32_pow2: "j < 30 \<Longrightarrow> shl32 (2 ^ j) 1 = 2 ^ Suc j"
proof -
  assume j: "j < 30"
  have a: "(2::int) ^ j < 2147483648" using j by (simp add: pow2_bound31)
  have b: "(2::int) ^ Suc j < 2147483648" using j by (intro pow2_bound31) simp
  have nn: "0 \<le> (2::int) ^ j" "0 \<le> (2::int) ^ Suc j" by simp_all
  have "to_int32 (2 ^ j) = 2 ^ j"
    using a nn(1) by (intro to_int32_id) linarith+
  moreover have "to_int32 (2 ^ Suc j) = 2 ^ Suc j"
    using b nn(2) by (intro to_int32_id) linarith+
  ultimately show ?thesis by (simp add: shl32_def mult.commute)
qed

lemma length_wru [simp]: "length (wru a i v) = length a"
  by (simp add: wru_def)

lemma length_fill_reverse [simp]: "length (fill_reverse rt limit bt) = length rt"
proof -
  have "length (fold (\<lambda>i tbl. wru tbl (int i + limit) (u32_sum (rdu tbl (int i)) bt)) xs rt) = length rt" for xs
    by (induction xs arbitrary: rt) simp_all
  then show ?thesis by (simp add: fill_reverse_def)
qed

lemma tables_loop_terminates:
  assumes "k \<le> 30" and "j \<le> k"
  shows "\<exists>rt'. tables_loop (2 ^ k) rt (2 ^ j) bt = Some rt' \<and> length rt' = length rt"
  using assms
proof (induction "k - j" arbitrary: j rt bt)
  case 0
  then have "j = k" by simp
  then show ?case by (subst tables_loop.simps) simp
next
  case (Suc d)
  then have jk: "j < k" and j30: "j < 30" by simp_all
  have lt: "(2::int) ^ j < 2 ^ k" using jk by simp
  have d: "d = k - Suc j" using Suc.hyps(2) by simp
  have sj: "Suc j \<le> k" using jk by simp
  have ih: "\<exists>rt'. tables_loop (2 ^ k) (fill_reverse rt (2 ^ j) bt) (2 ^ Suc j) (sar32 bt 1) = Some rt'
      \<and> length rt' = length (fill_reverse rt (2 ^ j) bt)"
    by (rule Suc.hyps(1) [OF d Suc.prems(1) sj])
  have "tables_loop (2 ^ k) rt (2 ^ j) bt
      = tables_loop (2 ^ k) (fill_reverse rt (2 ^ j) bt) (2 ^ Suc j) (sar32 bt 1)"
    using lt by (subst tables_loop.simps) (simp only: shl32_pow2 [OF j30] if_True)
  then show ?case using ih by simp
qed

lemma tables_loop_zero_diverges: "0 < sz \<Longrightarrow> tables_loop sz rt 0 bt = None"
proof -
  assume sz: "0 < sz"
  have s0: "shl32 0 1 = 0" by (simp add: shl32_def to_int32_def)
  have "\<not> (s = sz \<and> l = 0)" if "tables_loop s r l b = Some y" for s r l b y
    by (rule tables_loop.raw_induct [where P = "\<lambda>s r l b y. \<not> (s = sz \<and> l = 0)", OF _ that])
      (use sz s0 in \<open>auto split: if_splits\<close>)
  then have "tables_loop sz rt 0 bt \<noteq> Some y" for y by blast
  then show ?thesis by (cases "tables_loop sz rt 0 bt") auto
qed

lemma tables_loop_diverges:
  assumes "2 ^ 31 \<le> sz" and "j \<le> 30"
  shows "tables_loop sz rt (2 ^ j) bt = None"
  using assms
proof (induction "30 - j" arbitrary: j rt bt)
  case 0
  then have j: "j = 30" by simp
  have sz: "0 < sz" "(2::int) ^ 30 < sz" "- (2 ^ 31) < sz" using 0(2) by simp_all
  have s1: "shl32 (2 ^ 30) 1 = - (2 ^ 31)" by (simp add: shl32_def to_int32_def)
  have s2: "shl32 (- (2 ^ 31)) 1 = 0" by (simp add: shl32_def to_int32_def)
  have "tables_loop sz rt (2 ^ 30) bt
      = tables_loop sz (fill_reverse rt (2 ^ 30) bt) (- (2 ^ 31)) (sar32 bt 1)"
    using sz by (subst tables_loop.simps) (simp only: s1 if_True)
  also have "\<dots> = tables_loop sz (fill_reverse (fill_reverse rt (2 ^ 30) bt) (- (2 ^ 31)) (sar32 bt 1)) 0
      (sar32 (sar32 bt 1) 1)"
    using sz by (subst tables_loop.simps) (simp only: s2 if_True)
  also have "\<dots> = None" using sz by (simp only: tables_loop_zero_diverges)
  finally show ?case using j by simp
next
  case (Suc d)
  then have j30: "j < 30" by simp
  have "(2::int) ^ j < 2147483648" using j30 by (simp add: pow2_bound31)
  then have lt: "(2::int) ^ j < sz" using Suc.prems by simp
  have d: "d = 30 - Suc j" using Suc.hyps(2) by simp
  have sj: "Suc j \<le> 30" using j30 by simp
  have "tables_loop sz (fill_reverse rt (2 ^ j) bt) (2 ^ Suc j) (sar32 bt 1) = None"
    by (rule Suc.hyps(1) [OF d Suc.prems(1) sj])
  moreover have "tables_loop sz rt (2 ^ j) bt
      = tables_loop sz (fill_reverse rt (2 ^ j) bt) (2 ^ Suc j) (sar32 bt 1)"
    using lt by (subst tables_loop.simps) (simp only: shl32_pow2 [OF j30] if_True)
  ultimately show ?case by simp
qed

section \<open>Construction of the transform\<close>

lemma tables_pow2:
  assumes "k \<le> 30"
  shows "\<exists>t. tables (2 ^ k) = Some (Inr t) \<and> tsize t = 2 ^ k"
proof -
  have lt: "(2::int) ^ k < 2147483648" using assms by (simp add: pow2_bound31)
  have nn: "0 \<le> (2::int) ^ k" by simp
  have p: "isPow2 (2 ^ k)" using isPow2_iff [of "2 ^ k"] lt nn by auto
  have z: "zeros_u32 (2 ^ k) = Inr (replicate (nat (2 ^ k)) 0)"
    using lt by (simp add: zeros_u32_def)
  obtain rt where "tables_loop (2 ^ k) (replicate (nat (2 ^ k)) 0) (2 ^ 0) (sar32 (2 ^ k) 1) = Some rt"
    using tables_loop_terminates [OF assms, of 0] by blast
  then show ?thesis using p z by (simp add: tables_def)
qed

lemma tables_negative:
  assumes "sz < 0"
  shows "tables sz = Some (Inl (NotPow2 sz)) \<or> tables sz = Some (Inl RangeError)"
  using assms by (simp add: tables_def zeros_u32_def)

lemma tables_large:
  assumes "2147483648 \<le> sz"
  shows "\<forall>t. tables sz \<noteq> Some (Inr t)"
proof (cases "isPow2 sz")
  case False
  then show ?thesis by (simp add: tables_def)
next
  case True
  show ?thesis
  proof (cases "zeros_u32 sz")
    case (Inl e)
    then show ?thesis using True by (simp add: tables_def)
  next
    case (Inr rt0)
    have "tables_loop sz rt0 (2 ^ 0) (sar32 sz 1) = None"
      using assms by (intro tables_loop_diverges) simp_all
    then show ?thesis using True Inr by (simp add: tables_def)
  qed
qed

lemma tables_Inr:
  assumes "tables sz = Some (Inr t)"
  shows "tsize t = sz \<and> (\<exists>k\<le>30. sz = 2 ^ k)"
proof -
  have ub: "sz < 2147483648" using tables_large [of sz] assms by force
  have lb: "0 \<le> sz" using tables_negative [of sz] assms by force
  have "isPow2 sz" using assms by (auto simp: tables_def split: if_splits)
  then obtain k where k: "sz = 2 ^ k" using isPow2_iff [of sz] lb ub by auto
  have "k < 31"
  proof (rule ccontr)
    assume "\<not> k < 31"
    then have "(2::int) ^ 31 \<le> 2 ^ k" by (intro power_increasing) simp_all
    with ub k show False by simp
  qed
  then have "k \<le> 30" by simp
  moreover have "tsize t = sz"
    using assms by (auto simp: tables_def split: if_splits sum.splits option.splits)
  ultimately show ?thesis using k by blast
qed

text \<open>
  C8 (as amended).  For every integer size below \<open>2^31\<close>, negative sizes included,
  \<open>fft\<close> returns a transform of that size when the size is a power of two, and
  otherwise raises an error: the size error, or for a negative size that passes the bit
  test the RangeError of the array allocation.
\<close>

theorem fft_construction:
  assumes "sz < 2 ^ 31"
  shows "((\<exists>k. sz = 2 ^ k) \<longrightarrow> (\<exists>t. fft sz = Some (Inr t) \<and> tsize t = sz)) \<and>
         (\<not> (\<exists>k. sz = 2 ^ k) \<longrightarrow>
            fft sz = Some (Inl (NotPow2 sz)) \<or> (sz < 0 \<and> fft sz = Some (Inl RangeError)))"
proof (intro conjI impI)
  assume "\<exists>k. sz = 2 ^ k"
  then obtain k where k: "sz = 2 ^ k" ..
  have "k < 31"
  proof (rule ccontr)
    assume "\<not> k < 31"
    then have "(2::int) ^ 31 \<le> 2 ^ k" by (intro power_increasing) simp_all
    with assms k show False by simp
  qed
  then have "k \<le> 30" by simp
  then show "\<exists>t. fft sz = Some (Inr t) \<and> tsize t = sz"
    using tables_pow2 [of k] k by (simp add: fft_def)
next
  assume np: "\<not> (\<exists>k. sz = 2 ^ k)"
  show "fft sz = Some (Inl (NotPow2 sz)) \<or> (sz < 0 \<and> fft sz = Some (Inl RangeError))"
  proof (cases "sz < 0")
    case True
    then show ?thesis using tables_negative [of sz] by (auto simp: fft_def)
  next
    case False
    then have "\<not> isPow2 sz" using isPow2_iff [of sz] assms np by simp
    then show ?thesis by (simp add: fft_def tables_def)
  qed
qed

text \<open>Sizes 8 and 12 on both sides of the statement.\<close>

theorem fft_construction_witness:
  "(8::int) < 2 ^ 31 \<and> (\<exists>t. fft 8 = Some (Inr t) \<and> tsize t = 8) \<and>
   (12::int) < 2 ^ 31 \<and> fft 12 = Some (Inl (NotPow2 12))"
proof -
  have a: "(8::int) < 2 ^ 31" and b: "(12::int) < 2 ^ 31" by simp_all
  have p8: "\<exists>k. (8::int) = 2 ^ k"
  proof
    show "(8::int) = 2 ^ 3" by simp
  qed
  have "\<not> isPow2 12" by (simp add: isPow2_def band32_def to_int32_def)
  then have p12: "\<not> (\<exists>k. (12::int) = 2 ^ k)" using isPow2_iff [of 12] by simp
  show ?thesis
    using fft_construction [OF a] fft_construction [OF b] p8 p12 by simp
qed

text \<open>
  C8 as stated fails for the power of two \<open>2^31\<close>: the bit test accepts it, and the
  table loop then never ends, because \<open>limit << 1\<close> wraps from \<open>2^30\<close> to
  \<open>-2^31\<close> and then to 0, where it stays below \<open>size\<close>.
\<close>

theorem fft_pow2_31_diverges: "(2147483648::int) = 2 ^ 31 \<and> fft 2147483648 = None"
proof -
  have p: "isPow2 2147483648" by (simp add: isPow2_def band32_def to_int32_def)
  have z: "zeros_u32 2147483648 = Inr (replicate (nat 2147483648) 0)"
    by (simp add: zeros_u32_def)
  have "tables_loop 2147483648 (replicate (nat 2147483648) 0) (2 ^ 0) (sar32 2147483648 1) = None"
    by (rule tables_loop_diverges) simp_all
  then have "tables_loop 2147483648 (replicate (nat 2147483648) 0) 1 (sar32 2147483648 1) = None"
    by simp
  then have "tables 2147483648 = None"
    unfolding tables_def using p z by simp
  then show ?thesis by (simp add: fft_def)
qed

section \<open>The transform: termination, length errors and the buffers it writes\<close>

lemma modifies_only_refl [simp]: "modifies_only A h h"
  by (simp add: modifies_only_def)

lemma modifies_only_trans:
  "modifies_only A h1 h2 \<Longrightarrow> modifies_only A h2 h3 \<Longrightarrow> modifies_only A h1 h3"
  by (simp add: modifies_only_def)

lemma modifies_only_hwr:
  assumes "a \<in> A"
  shows "modifies_only A h (hwr h a i v)"
proof -
  have "length (h[a := wr (h ! a) i v] ! b) = length (h ! b)" if "b < length h" for b
    using that by (cases "b = a") simp_all
  moreover have "h[a := wr (h ! a) i v] ! b = h ! b" if "b \<notin> A" for b
    using that assms by (cases "b = a") simp_all
  ultimately show ?thesis by (simp add: modifies_only_def hwr_def)
qed

lemma modifies_only_hwr_after:
  "modifies_only A h h1 \<Longrightarrow> a \<in> A \<Longrightarrow> modifies_only A h (hwr h1 a i v)"
  using modifies_only_trans modifies_only_hwr by blast

lemma modifies_only_fold:
  assumes "\<And>x h. modifies_only A h (f x h)"
  shows "modifies_only A h (fold f xs h)"
proof (induction xs arbitrary: h)
  case Nil
  show ?case by simp
next
  case (Cons x xs)
  have "modifies_only A h (f x h)" by (rule assms)
  moreover have "modifies_only A (f x h) (fold f xs (f x h))" by (rule Cons.IH)
  ultimately show ?case by (simp add: modifies_only_trans)
qed

lemma modifies_only_bit_reverse_copy:
  "modifies_only {re, im} h (bit_reverse_copy dir rt rs ims re im sz h)"
  unfolding bit_reverse_copy_def Let_def
  by (rule modifies_only_fold) (intro modifies_only_hwr_after modifies_only_refl, simp_all)

lemma modifies_only_butterfly:
  "modifies_only {re, im} h (butterfly re im halfSize cr ci h i)"
  unfolding butterfly_def Let_def
  by (intro modifies_only_hwr_after modifies_only_refl) simp_all

lemma modifies_only_normalize_out:
  "modifies_only {re, im} h (normalize_out re im sz h)"
  unfolding normalize_out_def Let_def
  by (rule modifies_only_fold) (intro modifies_only_hwr_after modifies_only_refl, simp_all)

lemma butterflies_modifies:
  assumes "butterflies re im sz halfSize cr ci h i = Some h'"
  shows "modifies_only {re, im} h h'"
proof (rule butterflies.raw_induct
    [where P = "\<lambda>re im sz halfSize cr ci h i h'. modifies_only {re, im} h h'", OF _ assms])
  fix bf re im sz halfSize cr ci h i h'
  assume ih: "\<And>re im sz halfSize cr ci h i h'.
      bf re im sz halfSize cr ci h i = Some h' \<Longrightarrow> modifies_only {re, im} h h'"
    and run: "(if i < sz
        then bf re im sz halfSize cr ci (butterfly re im halfSize cr ci h i) (i + shl32 halfSize 1)
        else Some h) = Some h'"
  show "modifies_only {re, im} h h'"
  proof (cases "i < sz")
    case True
    with run have "modifies_only {re, im} (butterfly re im halfSize cr ci h i) h'"
      by (auto intro: ih)
    then show ?thesis
      using modifies_only_butterfly modifies_only_trans by blast
  next
    case False
    with run show ?thesis by simp
  qed
qed

lemma butterflies_terminates:
  assumes "0 < shl32 halfSize 1"
  shows "\<exists>h'. butterflies re im sz halfSize cr ci h i = Some h'"
proof (induction "nat (sz - i)" arbitrary: h i rule: less_induct)
  case less
  show ?case
  proof (cases "i < sz")
    case True
    have "nat (sz - (i + shl32 halfSize 1)) < nat (sz - i)"
      using True assms by linarith
    then obtain h' where "butterflies re im sz halfSize cr ci
        (butterfly re im halfSize cr ci h i) (i + shl32 halfSize 1) = Some h'"
      using less by blast
    then show ?thesis using True by (subst butterflies.simps) simp
  next
    case False
    then show ?thesis by (subst butterflies.simps) simp
  qed
qed

lemma fft_steps_modifies:
  "fft_steps re im sz halfSize sr si xs (h, cr, ci) = Some s' \<Longrightarrow> modifies_only {re, im} h (fst s')"
proof (induction xs arbitrary: h cr ci)
  case Nil
  then show ?case by auto
next
  case (Cons x xs)
  then obtain h1 where h1: "butterflies re im sz halfSize cr ci h (int x) = Some h1"
    and rest: "fft_steps re im sz halfSize sr si xs
      (h1, jsub (jmul cr sr) (jmul ci si), jadd (jmul cr si) (jmul ci sr)) = Some s'"
    by (auto split: option.splits)
  have "modifies_only {re, im} h h1" using h1 by (rule butterflies_modifies)
  moreover have "modifies_only {re, im} h1 (fst s')" using rest by (rule Cons.IH)
  ultimately show ?case by (rule modifies_only_trans)
qed

lemma fft_steps_terminates:
  assumes "0 < shl32 halfSize 1"
  shows "\<exists>s'. fft_steps re im sz halfSize sr si xs s = Some s'"
proof (induction xs arbitrary: s)
  case Nil
  obtain h cr ci where "s = (h, cr, ci)" using prod_cases3 by blast
  then show ?case by simp
next
  case (Cons x xs)
  obtain h cr ci where s: "s = (h, cr, ci)" using prod_cases3 by blast
  obtain h1 where "butterflies re im sz halfSize cr ci h (int x) = Some h1"
    using butterflies_terminates [OF assms] by blast
  then show ?case using Cons.IH s by simp
qed

lemma fft_stages_modifies:
  fixes t :: tables
  assumes "fft_stages t re im h halfSize = Some h'"
  shows "modifies_only {re, im} h h'"
proof (rule fft_stages.raw_induct
    [where P = "\<lambda>(t :: tables) re im h halfSize h'. modifies_only {re, im} h h'", OF _ assms])
  fix st and t :: tables and re im h halfSize h'
  assume ih: "\<And>(t :: tables) re im h halfSize h'.
      st t re im h halfSize = Some h' \<Longrightarrow> modifies_only {re, im} h h'"
    and run: "(if halfSize < tsize t
        then case fft_steps re im (tsize t) halfSize (rd (cosTable t) halfSize)
                    (rd (sinTable t) halfSize) [0..<nat halfSize] (h, Num 1, Num 0) of
               None \<Rightarrow> None
             | Some s \<Rightarrow> st t re im (fst s) (shl32 halfSize 1)
        else Some h) = Some h'"
  show "modifies_only {re, im} h h'"
  proof (cases "halfSize < tsize t")
    case True
    with run obtain s where s: "fft_steps re im (tsize t) halfSize (rd (cosTable t) halfSize)
        (rd (sinTable t) halfSize) [0..<nat halfSize] (h, Num 1, Num 0) = Some s"
      and rest: "st t re im (fst s) (shl32 halfSize 1) = Some h'"
      by (auto split: option.splits)
    have "modifies_only {re, im} h (fst s)" using s by (rule fft_steps_modifies)
    moreover have "modifies_only {re, im} (fst s) h'" using rest by (rule ih)
    ultimately show ?thesis by (rule modifies_only_trans)
  next
    case False
    with run show ?thesis by simp
  qed
qed

lemma fft_stages_terminates:
  fixes t :: tables
  assumes "tsize t = 2 ^ k" and "k \<le> 30" and "j \<le> k"
  shows "\<exists>h'. fft_stages t re im h (2 ^ j) = Some h'"
  using assms(3)
proof (induction "k - j" arbitrary: j h)
  case 0
  then have "j = k" by simp
  then show ?case using assms(1) by (subst fft_stages.simps) simp
next
  case (Suc d)
  then have jk: "j < k" and j30: "j < 30" using assms(2) by simp_all
  have lt: "(2::int) ^ j < tsize t" using jk assms(1) by simp
  have sh: "shl32 (2 ^ j) 1 = 2 ^ Suc j" by (rule shl32_pow2 [OF j30])
  then have pos: "0 < shl32 (2 ^ j) 1" by simp
  obtain s where s: "fft_steps re im (tsize t) (2 ^ j) (rd (cosTable t) (2 ^ j))
      (rd (sinTable t) (2 ^ j)) [0..<nat (2 ^ j)] (h, Num 1, Num 0) = Some s"
    using fft_steps_terminates [OF pos] by blast
  have d: "d = k - Suc j" using Suc.hyps(2) by simp
  have sj: "Suc j \<le> k" using jk by simp
  obtain h' where "fft_stages t re im (fst s) (2 ^ Suc j) = Some h'"
    using Suc.hyps(1) [OF d sj] by blast
  then show ?case
    using lt s sh by (subst fft_stages.simps) simp
qed

lemma process_complex:
  fixes t :: tables
  shows "process dir t (ComplexFrame rs ims) (Some (re, im)) h =
     (if int (length (h ! rs)) \<noteq> tsize t then Some (Inl (RealLength (tsize t) (length (h ! rs))))
      else if int (length (h ! ims)) \<noteq> tsize t
        then Some (Inl (ImagLength (tsize t) (length (h ! ims))))
      else (case fft_stages t re im
                   (bit_reverse_copy dir (reverseTable t) rs ims re im (tsize t) h) 1 of
              None \<Rightarrow> None
            | Some h2 \<Rightarrow>
                Some (Inr ((re, im), if dir = - 1 then normalize_out re im (tsize t) h2 else h2))))"
  by (simp add: process_def resolve_input_def resolve_output_def Let_def)

lemma process_complex_Inr:
  fixes t :: tables
  assumes "process dir t (ComplexFrame rs ims) (Some (re, im)) h = Some (Inr (out, h'))"
  shows "out = (re, im) \<and> modifies_only {re, im} h h'"
proof -
  from assms obtain h2 where
    h2: "fft_stages t re im (bit_reverse_copy dir (reverseTable t) rs ims re im (tsize t) h) 1 = Some h2"
    and res: "out = (re, im)" "h' = (if dir = - 1 then normalize_out re im (tsize t) h2 else h2)"
    by (auto simp: process_complex split: if_splits option.splits)
  have "modifies_only {re, im} h (bit_reverse_copy dir (reverseTable t) rs ims re im (tsize t) h)"
    by (rule modifies_only_bit_reverse_copy)
  moreover have "modifies_only {re, im}
      (bit_reverse_copy dir (reverseTable t) rs ims re im (tsize t) h) h2"
    using h2 by (rule fft_stages_modifies)
  moreover have "modifies_only {re, im} h2 h'"
    using res(2) by (simp add: modifies_only_normalize_out)
  ultimately show ?thesis using res(1) by (blast intro: modifies_only_trans)
qed

lemma process_complex_terminates:
  fixes t :: tables
  assumes "tsize t = 2 ^ k" and "k \<le> 30"
    and "int (length (h ! rs)) = tsize t" and "int (length (h ! ims)) = tsize t"
  shows "\<exists>h'. process dir t (ComplexFrame rs ims) (Some (re, im)) h = Some (Inr ((re, im), h'))"
proof -
  obtain h2 where "fft_stages t re im
      (bit_reverse_copy dir (reverseTable t) rs ims re im (tsize t) h) (2 ^ 0) = Some h2"
    using fft_stages_terminates [OF assms(1,2), of 0] by blast
  then show ?thesis using assms(3,4) by (simp add: process_complex)
qed


lemma rtrunc_of_int [simp]: "rtrunc (of_int n) = n"
  by (simp add: rtrunc_def)

lemma zeros_of_int:
  "0 \<le> n \<Longrightarrow> n \<le> 2 ^ 53 - 1 \<Longrightarrow> zeros (of_int n) = Inr (replicate (nat n) (Num 0))"
  by (simp add: zeros_def)

lemma zeros_pow2:
  assumes "k \<le> 30"
  shows "zeros (of_int (2 ^ k)) = Inr (replicate (nat (2 ^ k)) (Num 0))"
proof -
  have "(2::int) ^ k < 2147483648" using assms by (simp add: pow2_bound31)
  then have "(2::int) ^ k \<le> 2 ^ 53 - 1" by simp
  then show ?thesis by (intro zeros_of_int) simp_all
qed

lemma process_terminates:
  fixes t :: tables
  assumes "tsize t = 2 ^ k" and "k \<le> 30"
    and "int (length (h ! rs)) = tsize t" and "int (length (h ! ims)) = tsize t"
    and "rs < length h" and "ims < length h"
  shows "\<exists>r. process dir t (ComplexFrame rs ims) out h = Some (Inr r)"
proof (cases out)
  case None
  let ?h1 = "h @ [replicate (nat (2 ^ k)) (Num 0), replicate (nat (2 ^ k)) (Num 0)]"
  obtain h2 where "fft_stages t (length h) (length h + 1)
      (bit_reverse_copy dir (reverseTable t) rs ims (length h) (length h + 1) (tsize t) ?h1) (2 ^ 0)
      = Some h2"
    using fft_stages_terminates [OF assms(1,2), of 0] by blast
  then show ?thesis
    using None assms zeros_pow2 [OF assms(2)]
    by (simp add: process_def resolve_input_def resolve_output_def Let_def)
next
  case (Some p)
  obtain re im where "p = (re, im)" by (cases p) auto
  then show ?thesis
    using Some process_complex_terminates [OF assms(1-4), of dir re im] by auto
qed

lemma process_real_signal:
  fixes t :: tables
  assumes "tsize t = 2 ^ k" and "k \<le> 30" and "a < length h"
  shows "process dir t (RealSignal a) out h =
           process dir t (ComplexFrame a (length h)) out (h @ [replicate (nat (2 ^ k)) (Num 0)])"
  using assms zeros_pow2 [OF assms(2)]
  by (simp add: process_def resolve_input_def Let_def)

lemma fft_2: "fft 2 = Some (Inr example_ft2)"
proof -
  have p: "isPow2 2" by (simp add: isPow2_def band32_def to_int32_def)
  have l1: "tables_loop 2 [0, 0] 1 1 = tables_loop 2 (fill_reverse [0, 0] 1 1) 2 0"
    by (subst tables_loop.simps) (simp add: shl32_def sar32_def to_int32_def)
  have l2: "tables_loop 2 (fill_reverse [0, 0] 1 1) 2 0 = Some (fill_reverse [0, 0] 1 1)"
    by (subst tables_loop.simps) simp
  have f: "fill_reverse [0, 0] 1 1 = [0, 1]"
    by (simp add: fill_reverse_def wru_def rdu_def u32_sum_def)
  show ?thesis
    using p l1 l2 f
    by (simp add: fft_def tables_def zeros_u32_def sar32_def to_int32_def numeral_2_eq_2
        signed_inf_def upt_conv_Cons example_ft2_def)
qed

text \<open>
  C9.  For a transform built by \<open>fft N\<close> and a complex input frame, \<open>forward\<close> and
  \<open>inverse\<close> raise the length error of the real buffer when its length is not \<open>N\<close>,
  the length error of the imaginary buffer when only that length is not \<open>N\<close>, and
  return a result, raising nothing, when both lengths are \<open>N\<close>.  The error is the
  immediate result of the call, whatever the output argument.
\<close>

theorem process_length_check:
  fixes t :: tables
  assumes "fft N = Some (Inr t)" and "rs < length h" and "ims < length h"
  shows
    "(int (length (h ! rs)) \<noteq> N \<longrightarrow>
        forward t (ComplexFrame rs ims) out h = Some (Inl (RealLength N (length (h ! rs)))) \<and>
        inverse_fft t (ComplexFrame rs ims) out h = Some (Inl (RealLength N (length (h ! rs))))) \<and>
     (int (length (h ! rs)) = N \<and> int (length (h ! ims)) \<noteq> N \<longrightarrow>
        forward t (ComplexFrame rs ims) out h = Some (Inl (ImagLength N (length (h ! ims)))) \<and>
        inverse_fft t (ComplexFrame rs ims) out h = Some (Inl (ImagLength N (length (h ! ims))))) \<and>
     (int (length (h ! rs)) = N \<and> int (length (h ! ims)) = N \<longrightarrow>
        (\<exists>r. forward t (ComplexFrame rs ims) out h = Some (Inr r)) \<and>
        (\<exists>r. inverse_fft t (ComplexFrame rs ims) out h = Some (Inr r)))"
proof -
  from assms(1) have sz: "tsize t = N" and "\<exists>k\<le>30. N = 2 ^ k"
    using tables_Inr [of N t] by (simp_all add: fft_def)
  then obtain k where k: "k \<le> 30" "tsize t = 2 ^ k" by auto
  have bad_re: "process dir t (ComplexFrame rs ims) out h = Some (Inl (RealLength N (length (h ! rs))))"
    if "int (length (h ! rs)) \<noteq> N" for dir
    using that sz by (simp add: process_def resolve_input_def Let_def)
  have bad_im: "process dir t (ComplexFrame rs ims) out h = Some (Inl (ImagLength N (length (h ! ims))))"
    if "int (length (h ! rs)) = N" "int (length (h ! ims)) \<noteq> N" for dir
    using that sz by (simp add: process_def resolve_input_def Let_def)
  have good: "\<exists>r. process dir t (ComplexFrame rs ims) out h = Some (Inr r)"
    if "int (length (h ! rs)) = N" "int (length (h ! ims)) = N" for dir
    using that sz process_terminates [OF k(2,1) _ _ assms(2,3)] by simp
  show ?thesis
    unfolding forward_def inverse_fft_def using bad_re bad_im good by blast
qed

text \<open>The statement at size 2: an imaginary buffer of length 1, then one of length 2.\<close>

theorem process_length_check_witness:
  "fft 2 = Some (Inr example_ft2) \<and>
   forward example_ft2 (ComplexFrame 0 1) None [[Num 1, Num 2], [Num 0]]
     = Some (Inl (ImagLength 2 1)) \<and>
   (\<exists>r. inverse_fft example_ft2 (ComplexFrame 0 1) None [[Num 1, Num 2], [Num 0, Num 0]]
     = Some (Inr r))"
  using process_length_check [OF fft_2, of 0 "[[Num 1, Num 2], [Num 0]]" 1 None]
    process_length_check [OF fft_2, of 0 "[[Num 1, Num 2], [Num 0, Num 0]]" 1 None] fft_2
  by simp

text \<open>
  C10.  For a transform built by \<open>fft N\<close>, an input frame whose two buffers have length
  \<open>N\<close>, and an output object whose two buffers are none of the input's buffers,
  \<open>forward\<close> and \<open>inverse\<close> return the output object and leave both input buffers as
  they were.
\<close>

theorem process_preserves_input:
  fixes t :: tables
  assumes "fft N = Some (Inr t)"
    and "rs < length h" and "ims < length h" and "re < length h" and "im < length h"
    and "int (length (h ! rs)) = N" and "int (length (h ! ims)) = N"
    and "re \<notin> {rs, ims}" and "im \<notin> {rs, ims}"
  shows
    "(\<exists>h'. forward t (ComplexFrame rs ims) (Some (re, im)) h = Some (Inr ((re, im), h')) \<and>
           h' ! rs = h ! rs \<and> h' ! ims = h ! ims) \<and>
     (\<exists>h'. inverse_fft t (ComplexFrame rs ims) (Some (re, im)) h = Some (Inr ((re, im), h')) \<and>
           h' ! rs = h ! rs \<and> h' ! ims = h ! ims)"
proof -
  from assms(1) have sz: "tsize t = N" and "\<exists>k\<le>30. N = 2 ^ k"
    using tables_Inr [of N t] by (simp_all add: fft_def)
  then obtain k where k: "k \<le> 30" "tsize t = 2 ^ k" by auto
  have "\<exists>h'. process dir t (ComplexFrame rs ims) (Some (re, im)) h = Some (Inr ((re, im), h')) \<and>
           h' ! rs = h ! rs \<and> h' ! ims = h ! ims" for dir
  proof -
    obtain h' where run: "process dir t (ComplexFrame rs ims) (Some (re, im)) h = Some (Inr ((re, im), h'))"
      using process_complex_terminates [OF k(2,1), of h rs ims dir re im] assms(6,7) sz by auto
    then have "modifies_only {re, im} h h'" using process_complex_Inr by blast
    then have "h' ! rs = h ! rs" "h' ! ims = h ! ims"
      using assms(2,3,8,9) by (auto simp: modifies_only_def)
    with run show ?thesis by blast
  qed
  then show ?thesis unfolding forward_def inverse_fft_def by blast
qed

text \<open>The statement at size 2, with the input in buffers 0 and 1 and the output in
  buffers 2 and 3.\<close>

theorem process_preserves_input_witness:
  "fft 2 = Some (Inr example_ft2) \<and>
   (\<exists>h'. forward example_ft2 (ComplexFrame 0 1) (Some (2, 3))
            [[Num 1, Num 2], [Num 0, Num 0], [Num 5, Num 6], [Num 7, Num 8]]
          = Some (Inr ((2, 3), h')) \<and>
        h' ! 0 = [Num 1, Num 2] \<and> h' ! 1 = [Num 0, Num 0])"
  using process_preserves_input [OF fft_2,
      of 0 "[[Num 1, Num 2], [Num 0, Num 0], [Num 5, Num 6], [Num 7, Num 8]]" 1 2 3] fft_2
  by simp

section \<open>Analysis\<close>

lemma length_polar:
  "length (magnitudes (polar (re, im))) = length re \<and> length (phases (polar (re, im))) = length re"
proof -
  have "length (magnitudes (fold (\<lambda>i out.
            let rval = rd re (int i); ival = rd im (int i)
            in out\<lparr>magnitudes := wr (magnitudes out) (int i) (jsqrt (jadd (jmul rval rval) (jmul ival ival))),
                   phases := wr (phases out) (int i) (jatan2 ival rval)\<rparr>) xs f)) = length (magnitudes f)
      \<and> length (phases (fold (\<lambda>i out.
            let rval = rd re (int i); ival = rd im (int i)
            in out\<lparr>magnitudes := wr (magnitudes out) (int i) (jsqrt (jadd (jmul rval rval) (jmul ival ival))),
                   phases := wr (phases out) (int i) (jatan2 ival rval)\<rparr>) xs f)) = length (phases f)"
    for xs and f :: frame
    by (induction xs arbitrary: f) (simp_all add: Let_def)
  then show ?thesis by (simp add: polar_def Let_def)
qed

lemma length_mult [simp]: "length (mult N a b) = length b"
proof -
  have "length (fold (\<lambda>i out. wr out (int i) (jmul (rd a (int i)) (rd out (int i)))) xs b) = length b" for xs
    by (induction xs arbitrary: b) simp_all
  then show ?thesis by (simp add: mult_def)
qed

lemma length_fftshift [simp]: "length (fftshift x) = length x"
  by (simp add: fftshift_def Let_def)

lemma length_ifftshift [simp]: "length (ifftshift x) = length x"
  by (simp add: ifftshift_def Let_def)

lemma length_zeros: "zeros n = Inr z \<Longrightarrow> length z = nat (rtrunc n)"
  by (auto simp: zeros_def Let_def split: if_splits)

lemma typed_set_Inr: "typed_set frame src = Inr f \<Longrightarrow> length f = length frame"
  by (auto simp: typed_set_def split: if_splits)

lemma process_Inr:
  fixes t :: tables
  assumes "process dir t input (Some (re, im)) h = Some (Inr (out, h'))"
  shows "out = (re, im) \<and> (\<exists>h0. modifies_only {re, im} h0 h' \<and> (h0 = h \<or> (\<exists>z. h0 = h @ [z])))"
proof (cases input)
  case (ComplexFrame a b)
  then show ?thesis using process_complex_Inr assms by blast
next
  case (RealSignal a)
  with assms obtain z where z: "zeros (of_int (tsize t)) = Inr z"
    by (auto simp: process_def resolve_input_def Let_def split: sum.splits)
  then have "process dir t (RealSignal a) (Some (re, im)) h
      = process dir t (ComplexFrame a (length h)) (Some (re, im)) (h @ [z])"
    by (simp add: process_def resolve_input_def Let_def)
  then have "out = (re, im) \<and> modifies_only {re, im} (h @ [z]) h'"
    using process_complex_Inr assms RealSignal by simp
  then show ?thesis by blast
qed

text \<open>What a round of the analysis loop returns: a frame as long as \<open>fdFrame.real\<close>,
  and scratch buffers of unchanged length.\<close>

lemma analysis_step_Inr:
  fixes ft :: tables
  assumes "analysis_step signal sz hop window ft i (frame, fr, fi) = Some (Inr (f, s'))"
  shows "length (magnitudes f) = length fr \<and> length (phases f) = length fr \<and>
         length (fst s') = length frame \<and> length (fst (snd s')) = length fr \<and>
         length (snd (snd s')) = length fi"
proof -
  obtain off cnt where v: "subarray (length signal) (real i * hop) (real i * hop + of_int sz) = (off, cnt)"
    by (cases "subarray (length signal) (real i * hop) (real i * hop + of_int sz)") auto
  from assms v obtain frame1 where f1: "typed_set frame (take cnt (drop off signal)) = Inr frame1"
    by (auto simp: analysis_step_def Let_def split: sum.splits)
  let ?frame3 = "fftshift (mult (of_int sz) window frame1)"
  from assms v f1 obtain out h where
    run: "forward ft (RealSignal 0) (Some (1, 2)) [?frame3, fr, fi] = Some (Inr (out, h))"
    and res: "f = polar (h ! fst out, h ! snd out)" "s' = (h ! 0, h ! 1, h ! 2)"
    by (auto simp: analysis_step_def Let_def split: sum.splits option.splits)
  from run obtain h0 where out: "out = (1, 2)" and m: "modifies_only {1, 2} h0 h"
    and h0: "h0 = [?frame3, fr, fi] \<or> (\<exists>z. h0 = [?frame3, fr, fi] @ [z])"
    using process_Inr [of 1 ft "RealSignal 0" 1 2 "[?frame3, fr, fi]" out h]
    by (auto simp: forward_def)
  have l: "length (h ! 0) = length ?frame3" "length (h ! 1) = length fr" "length (h ! 2) = length fi"
    using m h0 by (auto simp: modifies_only_def)
  have "length frame1 = length frame" using f1 by (rule typed_set_Inr)
  then show ?thesis using res out l length_polar [of "h ! 1" "h ! 2"] by simp
qed

lemma analysis_loop_Inr:
  fixes ft :: tables
  assumes "analysis_loop signal sz hop window ft xs (frame, fr, fi) = Some (Inr fs)"
  shows "length fs = length xs \<and>
         (\<forall>f\<in>set fs. length (magnitudes f) = length fr \<and> length (phases f) = length fr)"
  using assms
proof (induction xs arbitrary: frame fr fi fs)
  case Nil
  then show ?case by simp
next
  case (Cons x xs)
  from Cons.prems obtain f s' fs' where
    step: "analysis_step signal sz hop window ft x (frame, fr, fi) = Some (Inr (f, s'))"
    and rest: "analysis_loop signal sz hop window ft xs s' = Some (Inr fs')"
    and fs: "fs = f # fs'"
    by (auto split: option.splits sum.splits)
  obtain frame' fr' fi' where s': "s' = (frame', fr', fi')" using prod_cases3 by blast
  have a: "length (magnitudes f) = length fr \<and> length (phases f) = length fr \<and> length fr' = length fr"
    using analysis_step_Inr [OF step] s' by simp
  have "length fs' = length xs \<and>
      (\<forall>f\<in>set fs'. length (magnitudes f) = length fr' \<and> length (phases f) = length fr')"
    using Cons.IH rest s' by blast
  then show ?case using a fs by simp
qed

lemma analysis_Inr:
  assumes "analysis signal opts = Some (Inr frames)"
  shows "\<forall>f\<in>set frames. length (magnitudes f) = nat (a_size opts) \<and>
                         length (phases f) = nat (a_size opts)"
proof -
  from assms obtain ft window n z where
    z: "zeros (of_int (a_size opts)) = Inr z"
    and loop: "analysis_loop signal (a_size opts) (a_hop opts) window ft [0..<n] (z, z, z) = Some (Inr frames)"
    by (auto simp: analysis_def Let_def split: option.splits sum.splits)
  have "length z = nat (a_size opts)" using length_zeros [OF z] by simp
  then show ?thesis using analysis_loop_Inr [OF loop] by simp
qed


lemma subarray_count:
  assumes "0 \<le> b" and "0 \<le> sz"
  shows "snd (subarray len b (b + of_int sz)) \<le> nat sz"
proof -
  have f: "\<lfloor>b + of_int sz\<rfloor> = \<lfloor>b\<rfloor> + sz" by simp
  have nn: "0 \<le> \<lfloor>b\<rfloor>" using assms(1) by simp
  have "0 \<le> b + of_int sz" using assms by simp
  moreover have "\<not> \<lfloor>b\<rfloor> + sz < 0" using nn assms(2) by linarith
  ultimately have "rel_index (b + of_int sz) len = nat (min (\<lfloor>b\<rfloor> + sz) (int len))"
    by (simp add: rel_index_def rtrunc_def Let_def f)
  moreover have "rel_index b len = nat (min \<lfloor>b\<rfloor> (int len))"
    using assms(1) nn by (simp add: rel_index_def rtrunc_def Let_def)
  ultimately show ?thesis using nn assms(2) by (simp add: subarray_def) linarith
qed

lemma analysis_step_terminates:
  fixes ft :: tables
  assumes "tsize ft = 2 ^ k" and "k \<le> 30" and "sz = 2 ^ k" and "0 \<le> hop"
    and "length frame = nat sz" and "length fr = nat sz" and "length fi = nat sz"
  shows "\<exists>f s'. analysis_step signal sz hop window ft i (frame, fr, fi) = Some (Inr (f, s'))"
proof -
  obtain off cnt where v: "subarray (length signal) (real i * hop) (real i * hop + of_int sz) = (off, cnt)"
    by (cases "subarray (length signal) (real i * hop) (real i * hop + of_int sz)") auto
  have sz0: "0 \<le> sz" using assms(3) by simp
  have "cnt \<le> nat sz"
    using subarray_count [of "real i * hop" sz "length signal"] assms(4) sz0 v by simp
  then have "length (take cnt (drop off signal)) \<le> length frame" using assms(5) by simp
  then obtain frame1 where f1: "typed_set frame (take cnt (drop off signal)) = Inr frame1"
    unfolding typed_set_def by (simp only: not_less [symmetric] if_False)
  then have l1: "length frame1 = nat sz" using typed_set_Inr assms(5) by force
  let ?frame3 = "fftshift (mult (of_int sz) window frame1)"
  let ?z = "replicate (nat (2 ^ k)) (Num 0)"
  have eq: "process 1 ft (RealSignal 0) (Some (1, 2)) [?frame3, fr, fi]
      = process 1 ft (ComplexFrame 0 3) (Some (1, 2)) [?frame3, fr, fi, ?z]"
    using process_real_signal [OF assms(1,2), of 0 "[?frame3, fr, fi]" 1 "Some (1, 2)"]
    by (simp add: numeral_3_eq_3)
  have "\<exists>h'. process 1 ft (ComplexFrame 0 3) (Some (1, 2)) [?frame3, fr, fi, ?z]
      = Some (Inr ((1, 2), h'))"
    using l1 assms(1,3) sz0 by (intro process_complex_terminates [OF assms(1,2)]) simp_all
  then obtain h' where
    "forward ft (RealSignal 0) (Some (1, 2)) [?frame3, fr, fi] = Some (Inr ((1, 2), h'))"
    unfolding forward_def eq by blast
  then show ?thesis using v f1 by (simp add: analysis_step_def Let_def)
qed

lemma analysis_loop_terminates:
  fixes ft :: tables
  assumes "tsize ft = 2 ^ k" and "k \<le> 30" and "sz = 2 ^ k" and "0 \<le> hop"
    and "length frame = nat sz" and "length fr = nat sz" and "length fi = nat sz"
  shows "\<exists>fs. analysis_loop signal sz hop window ft xs (frame, fr, fi) = Some (Inr fs)"
  using assms(5-7)
proof (induction xs arbitrary: frame fr fi)
  case Nil
  show ?case by simp
next
  case (Cons x xs)
  obtain f s' where step: "analysis_step signal sz hop window ft x (frame, fr, fi) = Some (Inr (f, s'))"
    using analysis_step_terminates [OF assms(1-4) Cons.prems] by blast
  obtain frame' fr' fi' where s': "s' = (frame', fr', fi')" using prod_cases3 by blast
  have "length frame' = nat sz" "length fr' = nat sz" "length fi' = nat sz"
    using analysis_step_Inr [OF step] s' Cons.prems by simp_all
  then obtain fs where "analysis_loop signal sz hop window ft xs s' = Some (Inr fs)"
    using Cons.IH s' by blast
  then show ?case using step by simp
qed

lemma length_fold_wr:
  "length (fold (\<lambda>n out. wr out (g n) (f n)) xs out) = length out"
  by (induction xs arbitrary: out) simp_all

lemma fill_pow2:
  assumes "k \<le> 30"
  shows "\<exists>w. fill (2 ^ k) fn = Inr w \<and> length w = nat (2 ^ k)"
  using zeros_pow2 [OF assms] by (simp add: fill_def length_fold_wr)

text \<open>What \<open>analysis\<close> returns for a constructed transform and a positive hop, from the
  number \<open>\<lfloor>(signal.length - size) / hop\<rfloor>\<close> alone.\<close>

lemma analysis_result:
  fixes t :: tables
  assumes "fft sz = Some (Inr t)" and "0 < hop" and "ft = None \<or> ft = Some t"
    and n_def: "n = \<lfloor>(of_int (int (length signal) - sz)) / hop :: real\<rfloor>"
  shows "(n < 0 \<or> 2 ^ 32 - 1 < n \<longrightarrow>
            analysis signal \<lparr>a_size = sz, a_hop = hop, a_windowFn = w, a_ft = ft\<rparr>
              = Some (Inl RangeError)) \<and>
         (0 \<le> n \<and> n \<le> 2 ^ 32 - 1 \<longrightarrow>
            (\<exists>frames. analysis signal \<lparr>a_size = sz, a_hop = hop, a_windowFn = w, a_ft = ft\<rparr>
                = Some (Inr frames) \<and> length frames = nat n))"
proof -
  from assms(1) have tsz: "tsize t = sz" and "\<exists>k\<le>30. sz = 2 ^ k"
    using tables_Inr [of sz t] by (simp_all add: fft_def)
  then obtain k where k: "k \<le> 30" "sz = 2 ^ k" by auto
  have ft: "(case ft of None \<Rightarrow> fft sz | Some t \<Rightarrow> Some (Inr t)) = Some (Inr t)"
    using assms(1,3) by auto
  let ?wf = "case w of None \<Rightarrow> (\<lambda>n N. Num 1) | Some w \<Rightarrow> w"
  obtain window where win: "fill sz ?wf = Inr window"
    using fill_pow2 [OF k(1), of ?wf] k(2) by auto
  have nf: "jfloor (jdiv (Num (of_int (int (length signal) - sz))) (Num hop)) = Num (of_int n)"
    using assms(2) by (simp add: n_def)
  have z: "zeros (of_int sz) = Inr (replicate (nat sz) (Num 0))"
    using zeros_pow2 [OF k(1)] k(2) by simp
  have unfold: "analysis signal \<lparr>a_size = sz, a_hop = hop, a_windowFn = w, a_ft = ft\<rparr> =
      (case new_Array (Num (of_int n)) of
         Inl e \<Rightarrow> Some (Inl e)
       | Inr m \<Rightarrow> analysis_loop signal sz hop window t [0..<m]
           (replicate (nat sz) (Num 0), replicate (nat sz) (Num 0), replicate (nat sz) (Num 0)))"
    by (simp only: analysis_def Let_def analysis_opts.simps ft win nf z sum.case option.case)
  have na: "new_Array (Num (of_int n)) = (if 0 \<le> n \<and> n \<le> 2 ^ 32 - 1 then Inr (nat n) else Inl RangeError)"
    by (simp add: new_Array_def)
  show ?thesis
  proof (intro conjI impI)
    assume "n < 0 \<or> 2 ^ 32 - 1 < n"
    then show "analysis signal \<lparr>a_size = sz, a_hop = hop, a_windowFn = w, a_ft = ft\<rparr>
        = Some (Inl RangeError)"
      unfolding unfold na by auto
  next
    assume ok: "0 \<le> n \<and> n \<le> 2 ^ 32 - 1"
    obtain fs where loop: "analysis_loop signal sz hop window t [0..<nat n]
        (replicate (nat sz) (Num 0), replicate (nat sz) (Num 0), replicate (nat sz) (Num 0))
        = Some (Inr fs)"
      using analysis_loop_terminates [of t k sz hop "replicate (nat sz) (Num 0)"
          "replicate (nat sz) (Num 0)" "replicate (nat sz) (Num 0)" signal window "[0..<nat n]"]
        tsz k assms(2) by auto
    then have "length fs = nat n" using analysis_loop_Inr [OF loop] by simp
    then show "\<exists>frames. analysis signal \<lparr>a_size = sz, a_hop = hop, a_windowFn = w, a_ft = ft\<rparr>
        = Some (Inr frames) \<and> length frames = nat n"
      unfolding unfold na using ok loop by simp
  qed
qed


lemma length_ramp16: "length ramp16 = 16"
  by (simp add: ramp16_def)

lemma fft_8: "\<exists>t. fft 8 = Some (Inr t)"
  using tables_pow2 [of 3] by (auto simp: fft_def)

text \<open>
  C4 is not what the code does.  For a constructed transform size, a positive hop and a
  signal shorter than \<open>size\<close>, the frame count
  \<open>\<lfloor>(signal.length - size) / hop\<rfloor>\<close> is negative and \<open>new Array (numFrames)\<close>
  raises a RangeError: \<open>analysis\<close> throws instead of returning an empty sequence.
\<close>

theorem analysis_short_signal:
  fixes t :: tables
  assumes "fft sz = Some (Inr t)" and "0 < hop" and "int (length signal) < sz"
    and "ft = None \<or> ft = Some t"
  shows "analysis signal \<lparr>a_size = sz, a_hop = hop, a_windowFn = w, a_ft = ft\<rparr>
           = Some (Inl RangeError)"
proof -
  have "of_int (int (length signal) - sz) / hop < (0::real)"
    using assms(2,3) by (simp add: divide_neg_pos)
  then have "\<lfloor>of_int (int (length signal) - sz) / hop :: real\<rfloor> < 0"
    by (simp add: floor_less_iff)
  then show ?thesis
    using analysis_result [OF assms(1,2,4) refl, of signal w] by blast
qed

text \<open>A one-sample signal with size 2 and hop 1, with the default transform.\<close>

theorem analysis_short_signal_witness:
  "fft 2 = Some (Inr example_ft2) \<and> (0::real) < 1 \<and> int (length [Num 1]) < 2 \<and>
   analysis [Num 1] \<lparr>a_size = 2, a_hop = 1, a_windowFn = None, a_ft = None\<rparr>
     = Some (Inl RangeError)"
  using analysis_short_signal [OF fft_2, of 1 "[Num 1]" None None] fft_2 by simp

text \<open>
  C7.  With size 8 and hop 4, \<open>analysis\<close> of the 16-sample ramp returns exactly
  \<open>\<lfloor>(16 - 8) / 4\<rfloor> = 2\<close> frames, each with 8 magnitudes and 8 phases, whatever the
  window function.  In general, every frame of a sequence that \<open>analysis\<close> returns has
  \<open>size\<close> magnitudes and \<open>size\<close> phases.
\<close>

theorem analysis_frame_lengths:
  "(\<exists>frames. analysis ramp16 \<lparr>a_size = 8, a_hop = 4, a_windowFn = w, a_ft = None\<rparr>
        = Some (Inr frames) \<and>
      length frames = 2 \<and>
      (\<forall>f\<in>set frames. length (magnitudes f) = 8 \<and> length (phases f) = 8)) \<and>
   (analysis signal opts = Some (Inr frames') \<longrightarrow>
      (\<forall>f\<in>set frames'. length (magnitudes f) = nat (a_size opts) \<and>
                         length (phases f) = nat (a_size opts)))"
proof
  obtain t :: tables where t: "fft 8 = Some (Inr t)" using fft_8 by blast
  have n: "(2::int) = \<lfloor>of_int (int (length ramp16) - 8) / 4 :: real\<rfloor>"
    by (simp add: length_ramp16)
  obtain frames where
    run: "analysis ramp16 \<lparr>a_size = 8, a_hop = 4, a_windowFn = w, a_ft = None\<rparr> = Some (Inr frames)"
    and len: "length frames = 2"
    using analysis_result [OF t _ _ n, of None w] by auto
  have "\<forall>f\<in>set frames. length (magnitudes f) = 8 \<and> length (phases f) = 8"
    using analysis_Inr [OF run] by simp
  with run len show "\<exists>frames. analysis ramp16 \<lparr>a_size = 8, a_hop = 4, a_windowFn = w, a_ft = None\<rparr>
        = Some (Inr frames) \<and> length frames = 2 \<and>
      (\<forall>f\<in>set frames. length (magnitudes f) = 8 \<and> length (phases f) = 8)"
    by blast
next
  show "analysis signal opts = Some (Inr frames') \<longrightarrow>
      (\<forall>f\<in>set frames'. length (magnitudes f) = nat (a_size opts) \<and>
                         length (phases f) = nat (a_size opts))"
    using analysis_Inr by blast
qed

text \<open>The general part at the frames of the ramp scenario, with the default window.\<close>

theorem analysis_frame_lengths_witness:
  "\<exists>frames. analysis ramp16 \<lparr>a_size = 8, a_hop = 4, a_windowFn = None, a_ft = None\<rparr>
       = Some (Inr frames) \<and>
     length frames = 2 \<and>
     length (magnitudes (frames ! 0)) = 8 \<and> length (phases (frames ! 0)) = 8 \<and>
     length (magnitudes (frames ! 1)) = 8 \<and> length (phases (frames ! 1)) = 8"
proof -
  obtain frames where
    run: "analysis ramp16 \<lparr>a_size = 8, a_hop = 4, a_windowFn = None, a_ft = None\<rparr> = Some (Inr frames)"
    and len: "length frames = 2"
    using analysis_frame_lengths [of None] by blast
  have "\<forall>f\<in>set frames. length (magnitudes f) = nat 8 \<and> length (phases f) = nat 8"
    using analysis_frame_lengths
      [of None ramp16 "\<lparr>a_size = 8, a_hop = 4, a_windowFn = None, a_ft = None\<rparr>" frames] run
    by simp
  moreover have "frames ! 0 \<in> set frames" "frames ! 1 \<in> set frames" using len by simp_all
  ultimately show ?thesis using run len by auto
qed

section \<open>Phase tracking in the stretch pipeline\<close>

lemma jadd_NaN_right [simp]: "jadd x NaN = NaN"
  by (cases x) simp_all

lemma jmul_NaN_right [simp]: "jmul x NaN = NaN"
  by (cases x) simp_all

lemma jdiv_NaN_right [simp]: "jdiv x NaN = NaN"
  by (cases x) simp_all

text \<open>A frame whose phases below bin \<open>sz\<close> have been overwritten by NaN.\<close>

lemma fold_phases_nan:
  "magnitudes (fold (\<lambda>b c. c\<lparr>phases := wr (phases c) (int b) NaN\<rparr>) xs cur) = magnitudes cur \<and>
   length (phases (fold (\<lambda>b c. c\<lparr>phases := wr (phases c) (int b) NaN\<rparr>) xs cur)) = length (phases cur) \<and>
   (\<forall>j<length (phases cur).
      phases (fold (\<lambda>b c. c\<lparr>phases := wr (phases c) (int b) NaN\<rparr>) xs cur) ! j =
        (if j \<in> set xs then NaN else phases cur ! j))"
proof (induction xs arbitrary: cur)
  case Nil
  show ?case by simp
next
  case (Cons x xs)
  let ?c = "cur\<lparr>phases := wr (phases cur) (int x) NaN\<rparr>"
  have c: "magnitudes ?c = magnitudes cur" "length (phases ?c) = length (phases cur)"
    "\<And>j. j < length (phases cur) \<Longrightarrow> phases ?c ! j = (if j = x then NaN else phases cur ! j)"
    by (auto simp: wr_def)
  show ?case using Cons.IH [of ?c] c by auto
qed

lemma recalc_frame_undefined_rate:
  "magnitudes (recalc_frame sz original NaN omega prev cur) = magnitudes cur \<and>
   length (phases (recalc_frame sz original NaN omega prev cur)) = length (phases cur) \<and>
   (\<forall>j<length (phases cur).
      phases (recalc_frame sz original NaN omega prev cur) ! j =
        (if int j < sz then NaN else phases cur ! j))"
proof -
  have "recalc_frame sz original NaN omega prev cur =
      fold (\<lambda>b c. c\<lparr>phases := wr (phases c) (int b) NaN\<rparr>) [0..<nat sz] cur"
    by (simp add: recalc_frame_def Let_def)
  then show ?thesis using fold_phases_nan [of "[0..<nat sz]" cur] by auto
qed

lemma recalcPhases_undefined_rate_aux:
  assumes "n \<le> length frames"
  shows "length (fold (\<lambda>i fs. fs[i := recalc_frame sz original NaN omega (fs ! (i - 1)) (fs ! i)])
            [2..<n] frames) = length frames \<and>
         (\<forall>i. n \<le> i \<longrightarrow> fold (\<lambda>i fs. fs[i := recalc_frame sz original NaN omega (fs ! (i - 1)) (fs ! i)])
            [2..<n] frames ! i = frames ! i) \<and>
         (\<forall>i. 2 \<le> i \<and> i < n \<longrightarrow>
            (\<forall>j<length (phases (frames ! i)). int j < sz \<longrightarrow>
               phases (fold (\<lambda>i fs. fs[i := recalc_frame sz original NaN omega (fs ! (i - 1)) (fs ! i)])
                 [2..<n] frames ! i) ! j = NaN))"
  using assms
proof (induction n)
  case 0
  show ?case by simp
next
  case (Suc n)
  let ?step = "\<lambda>i fs. fs[i := recalc_frame sz original NaN omega (fs ! (i - 1)) (fs ! i)]"
  let ?r = "fold ?step [2..<n] frames"
  have ih: "length ?r = length frames" "\<And>i. n \<le> i \<Longrightarrow> ?r ! i = frames ! i"
    "\<And>i j. 2 \<le> i \<Longrightarrow> i < n \<Longrightarrow> j < length (phases (frames ! i)) \<Longrightarrow> int j < sz \<Longrightarrow>
        phases (?r ! i) ! j = NaN"
    using Suc by auto
  show ?case
  proof (cases "2 \<le> n")
    case False
    then have e: "[2..<Suc n] = []" by simp
    show ?thesis unfolding e using False by auto
  next
    case True
    then have "[2..<Suc n] = [2..<n] @ [n]" by simp
    then have r: "fold ?step [2..<Suc n] frames = ?r[n := recalc_frame sz original NaN omega (?r ! (n - 1)) (?r ! n)]"
      by simp
    have n: "n < length ?r" using Suc.prems ih(1) by simp
    have cur: "?r ! n = frames ! n" using ih(2) by simp
    show ?thesis
      unfolding r using ih n cur
        recalc_frame_undefined_rate [of sz original omega "?r ! (n - 1)" "frames ! n"]
      by (auto simp: nth_list_update less_Suc_eq)
  qed
qed

lemma recalcPhases_undefined_rate:
  assumes "2 \<le> i" and "i < length frames" and "j < length (phases (frames ! i))" and "int j < sz"
  shows "phases (recalcPhases frames sz hop factor None omega ! i) ! j = NaN"
proof -
  have "recalcPhases frames sz hop factor None omega =
      fold (\<lambda>i fs. fs[i := recalc_frame sz NaN NaN omega (fs ! (i - 1)) (fs ! i)])
        [2..<length frames] frames"
    by (simp add: recalcPhases_def to_number_def Let_def)
  then show ?thesis
    using recalcPhases_undefined_rate_aux [of "length frames" frames sz NaN omega] assms by simp
qed

lemma length_recalcPhases [simp]:
  "length (recalcPhases frames sz hop factor rate omega) = length frames"
proof -
  have "length (fold (\<lambda>i fs. fs[i := g (fs ! (i - 1)) (fs ! i)]) xs fs) = length fs" for g xs and fs :: "frame list"
    by (induction xs arbitrary: fs) simp_all
  then show ?thesis by (simp add: recalcPhases_def Let_def)
qed


lemma tables_loop_step:
  "limit < sz \<Longrightarrow> tables_loop sz rt limit bt
     = tables_loop sz (fill_reverse rt limit bt) (shl32 limit 1) (sar32 bt 1)"
  by (subst tables_loop.simps) simp

lemma tables_loop_done: "\<not> limit < sz \<Longrightarrow> tables_loop sz rt limit bt = Some rt"
  by (subst tables_loop.simps) simp

lemma butterflies_step:
  "i < sz \<Longrightarrow> butterflies re im sz halfSize cr ci h i
     = butterflies re im sz halfSize cr ci (butterfly re im halfSize cr ci h i) (i + shl32 halfSize 1)"
  by (subst butterflies.simps) simp

lemma butterflies_done: "\<not> i < sz \<Longrightarrow> butterflies re im sz halfSize cr ci h i = Some h"
  by (subst butterflies.simps) simp

lemma fft_stages_step:
  fixes t :: tables
  shows "halfSize < tsize t \<Longrightarrow> fft_stages t re im h halfSize =
     (case fft_steps re im (tsize t) halfSize (rd (cosTable t) halfSize) (rd (sinTable t) halfSize)
             [0..<nat halfSize] (h, Num 1, Num 0) of
        None \<Rightarrow> None
      | Some s \<Rightarrow> fft_stages t re im (fst s) (shl32 halfSize 1))"
  by (subst fft_stages.simps) simp

lemma fft_stages_done:
  fixes t :: tables
  shows "\<not> halfSize < tsize t \<Longrightarrow> fft_stages t re im h halfSize = Some h"
  by (subst fft_stages.simps) simp

lemmas eval_int32 = isPow2_def band32_def to_int32_def sar32_def shl32_def
lemmas eval_buf = rd_def wr_def hrd_def hwr_def hrd_at_def rdu_def wru_def u32_sum_def
  zeros_def zeros_u32_def count_below_def upt_conv_Cons signed_inf_def jsub_def

lemma fft_4: "fft 4 = Some (Inr example_ft4)"
proof -
  have "tables_loop 4 [0, 0, 0, 0] 1 2 = Some [0, 2, 1, 3]"
    by (simp add: tables_loop_step tables_loop_done fill_reverse_def eval_int32 eval_buf)
  then show ?thesis
    by (simp add: fft_def tables_def example_ft4_def eval_int32 eval_buf eval_nat_numeral)
qed


lemma brc_4:
  "re = 1 \<Longrightarrow> ims = 3 \<Longrightarrow> rt = [0, 2, 1, 3] \<Longrightarrow>
   bit_reverse_copy 1 rt 0 ims re 2 4
     [[Num 0, Num 0, Num 0, Num 1], [Num 0, Num 0, Num 0, Num 0], [Num 0, Num 0, Num 0, Num 0],
      [Num 0, Num 0, Num 0, Num 0]] =
   [[Num 0, Num 0, Num 0, Num 1], [Num 0, Num 0, Num 0, Num 1], [Num 0, Num 0, Num 0, Num 0],
    [Num 0, Num 0, Num 0, Num 0]]"
  by (simp add: bit_reverse_copy_def eval_buf Let_def)

lemma bf4_1: "re = 1 \<Longrightarrow> butterfly re 2 1 (Num 1) (Num 0) [[Num 0, Num 0, Num 0, Num 1], [Num 0, Num 0, Num 0, Num 1], [Num 0, Num 0, Num 0, Num 0], [Num 0, Num 0, Num 0, Num 0]] 0 = [[Num 0, Num 0, Num 0, Num 1], [Num 0, Num 0, Num 0, Num 1], [Num 0, Num 0, Num 0, Num 0], [Num 0, Num 0, Num 0, Num 0]]"
  by (simp add: butterfly_def eval_buf Let_def)

lemma bf4_2: "re = 1 \<Longrightarrow> butterfly re 2 1 (Num 1) (Num 0) [[Num 0, Num 0, Num 0, Num 1], [Num 0, Num 0, Num 0, Num 1], [Num 0, Num 0, Num 0, Num 0], [Num 0, Num 0, Num 0, Num 0]] 2 = [[Num 0, Num 0, Num 0, Num 1], [Num 0, Num 0, Num 1, Num (- 1)], [Num 0, Num 0, Num 0, Num 0], [Num 0, Num 0, Num 0, Num 0]]"
  by (simp add: butterfly_def eval_buf Let_def)

lemma bf4_3: "re = 1 \<Longrightarrow> butterfly re 2 2 (Num 1) (Num 0) [[Num 0, Num 0, Num 0, Num 1], [Num 0, Num 0, Num 1, Num (- 1)], [Num 0, Num 0, Num 0, Num 0], [Num 0, Num 0, Num 0, Num 0]] 0 = [[Num 0, Num 0, Num 0, Num 1], [Num 1, Num 0, Num (- 1), Num (- 1)], [Num 0, Num 0, Num 0, Num 0], [Num 0, Num 0, Num 0, Num 0]]"
  by (simp add: butterfly_def eval_buf Let_def)

lemma bf4_4: "re = 1 \<Longrightarrow> butterfly re 2 2 (Num 0) (Num (- 1)) [[Num 0, Num 0, Num 0, Num 1], [Num 1, Num 0, Num (- 1), Num (- 1)], [Num 0, Num 0, Num 0, Num 0], [Num 0, Num 0, Num 0, Num 0]] 1 = [[Num 0, Num 0, Num 0, Num 1], [Num 1, Num 0, Num (- 1), Num 0], [Num 0, Num 1, Num 0, Num (- 1)], [Num 0, Num 0, Num 0, Num 0]]"
  by (simp add: butterfly_def eval_buf Let_def)

lemma stages_4:
  "re = 1 \<Longrightarrow> fft_stages example_ft4 re 2
     [[Num 0, Num 0, Num 0, Num 1], [Num 0, Num 0, Num 0, Num 1], [Num 0, Num 0, Num 0, Num 0],
      [Num 0, Num 0, Num 0, Num 0]] 1 =
   Some [[Num 0, Num 0, Num 0, Num 1], [Num 1, Num 0, Num (- 1), Num 0],
      [Num 0, Num 1, Num 0, Num (- 1)], [Num 0, Num 0, Num 0, Num 0]]"
  by (simp add: example_ft4_def fft_stages_step fft_stages_done butterflies_step butterflies_done
      bf4_1 bf4_2 bf4_3 bf4_4 eval_int32 rd_def jsub_def upt_conv_Cons)

lemma forward_4_raw:
  "forward example_ft4 (RealSignal 0) (Some (1, 2))
     [[Num 0, Num 0, Num 0, Num 1], [Num 0, Num 0, Num 0, Num 0], [Num 0, Num 0, Num 0, Num 0]] =
   Some (Inr ((1, 2),
     [[Num 0, Num 0, Num 0, Num 1], [Num 1, Num 0, Num (- 1), Num 0],
      [Num 0, Num 1, Num 0, Num (- 1)], [Num 0, Num 0, Num 0, Num 0]]))"
proof -
  have ft: "tsize example_ft4 = 4" "reverseTable example_ft4 = [0, 2, 1, 3]"
    by (simp_all add: example_ft4_def)
  have z: "zeros 4 = Inr [Num 0, Num 0, Num 0, Num 0]"
    by (simp add: zeros_def rtrunc_def eval_nat_numeral)
  show ?thesis
    by (simp add: forward_def process_def resolve_input_def resolve_output_def ft z brc_4
        stages_4)
qed


lemma forward_4:
  "out = (1, 2) \<Longrightarrow>
   forward example_ft4 (RealSignal 0) (Some out)
     [[Num 0, Num 0, Num 0, Num 1], [Num 0, Num 0, Num 0, Num 0], [Num 0, Num 0, Num 0, Num 0]] =
   Some (Inr (out,
     [[Num 0, Num 0, Num 0, Num 1], [Num 1, Num 0, Num (- 1), Num 0],
      [Num 0, Num 1, Num 0, Num (- 1)], [Num 0, Num 0, Num 0, Num 0]]))"
  using forward_4_raw by simp

lemma fftshift_4:
  "fftshift [Num 0, Num 1, Num 0, Num 0] = [Num 0, Num 0, Num 0, Num 1]"
  by (simp add: fftshift_def rotate_buf_def reverse_def reverse_loop.simps rd_def wr_def Let_def)

lemma polar_4:
  "polar ([Num 1, Num 0, Num (- 1), Num 0], [Num 0, Num 1, Num 0, Num (- 1)]) =
     \<lparr>magnitudes = [Num 1, Num 1, Num 1, Num 1],
      phases = [Num 0, Num (pi / 2), Num pi, Num (- (pi / 2))]\<rparr>"
  by (simp add: polar_def atan2_def Let_def rd_def wr_def upt_conv_Cons eval_nat_numeral)

lemma phaseVocoder_paul: "phaseVocoder paul_opts = Some (Inr paul_vocoder)"
  by (simp add: phaseVocoder_def paul_opts_def paul_vocoder_def fft_4 fill_def bandFrequency_def
      bandWidth_def Let_def eval_buf rtrunc_def eval_nat_numeral)

lemma analysis_4:
  "analysis [Num 0, Num 1, Num 0, Num 0, Num 0, Num 0]
     \<lparr>a_size = 4, a_hop = 2, a_windowFn = Some (\<lambda>n N. Num 1), a_ft = Some example_ft4\<rparr> =
   Some (Inr [\<lparr>magnitudes = [Num 1, Num 1, Num 1, Num 1],
               phases = [Num 0, Num (pi / 2), Num pi, Num (- (pi / 2))]\<rparr>])"
proof -
  have w: "fill 4 (\<lambda>n N. Num 1) = Inr [Num 1, Num 1, Num 1, Num 1]"
    by (simp add: fill_def eval_buf rtrunc_def eval_nat_numeral)
  have z: "zeros 4 = Inr [Num 0, Num 0, Num 0, Num 0]"
    by (simp add: zeros_def rtrunc_def eval_nat_numeral)
  have n: "new_Array (Num 1) = Inr (Suc 0)"
    by (simp add: new_Array_def)
  have v: "subarray n 0 4 = (0, 4)" if "n = 6" for n
    using that by (simp add: subarray_def rel_index_def rtrunc_def)
  have m: "mult 4 [Num 1, Num 1, Num 1, Num 1] [Num 0, Num 1, Num 0, Num 0] = [Num 0, Num 1, Num 0, Num 0]"
    by (simp add: mult_def eval_buf)
  have step: "analysis_step [Num 0, Num 1, Num 0, Num 0, Num 0, Num 0] 4 2 [Num 1, Num 1, Num 1, Num 1]
      example_ft4 0 ([Num 0, Num 0, Num 0, Num 0], [Num 0, Num 0, Num 0, Num 0], [Num 0, Num 0, Num 0, Num 0])
    = Some (Inr (\<lparr>magnitudes = [Num 1, Num 1, Num 1, Num 1],
               phases = [Num 0, Num (pi / 2), Num pi, Num (- (pi / 2))]\<rparr>,
        [Num 0, Num 0, Num 0, Num 1], [Num 1, Num 0, Num (- 1), Num 0], [Num 0, Num 1, Num 0, Num (- 1)]))"
    by (simp add: analysis_step_def v typed_set_def m fftshift_4 forward_4 polar_4)
  show ?thesis
    using z by (simp add: analysis_def w n step)
qed


lemma phaseVocoder_pv: "phaseVocoder pv_opts = Some (Inr pv_vocoder)"
  by (simp add: phaseVocoder_def pv_opts_def pv_vocoder_def fft_2 fill_def bandFrequency_def
      bandWidth_def Let_def eval_buf rtrunc_def eval_nat_numeral)

lemma random_frame_undefined_size: "random_frame None random s = s"
  by (simp add: random_frame_def)

lemma randomPhases_undefined_size: "randomPhases frames None random k = (frames, k)"
proof -
  have "fold (\<lambda>n (fs, k). let (f, k') = random_frame None random (fs ! n, k) in (fs[n := f], k'))
      xs (frames, k) = (frames, k)" for xs
    by (induction xs) (simp_all add: random_frame_undefined_size)
  then show ?thesis by (simp add: randomPhases_def)
qed

lemma stretch_track_paul:
  "v_algorithm (p_opts pv) = ''paul-stretch'' \<Longrightarrow> stretch_track pv factor frames random = frames"
  by (simp add: stretch_track_def Let_def randomPhases_undefined_size)

lemma stretch_track_phase_vocoder:
  "v_algorithm (p_opts pv) = ''phase-vocoder'' \<Longrightarrow>
   stretch_track pv factor frames random =
     recalcPhases frames (v_size (p_opts pv)) (v_hop (p_opts pv)) factor None (p_omega pv)"
  by (simp add: stretch_track_def Let_def)

text \<open>
  C1 is not what the code does.  \<open>stretch\<close> calls \<open>recalcPhases\<close> with an options object
  that has no \<open>sampleRate\<close>, so both hop times are \<open>hop / undefined\<close>, that is NaN, and
  every phase that the loop writes is NaN: with algorithm \<open>phase-vocoder\<close>, every bin
  below \<open>size\<close> of every frame from index 2 on holds NaN after phase tracking, not the
  value \<open>phase[i-1][b] + (hop * factor / sampleRate) * (centerFreq[b] + wrappedDeviation)\<close>.
\<close>

theorem stretch_phase_vocoder_nan:
  assumes "v_algorithm (p_opts pv) = ''phase-vocoder''"
    and "stretch_frames pv factor signal None random = Some (Inr frames)"
    and "2 \<le> i" and "i < length frames" and "b < nat (v_size (p_opts pv))"
  shows "phases (frames ! i) ! b = NaN"
proof -
  let ?opts = "p_opts pv"
  from assms(2) obtain frames0 where
    an: "analysis signal \<lparr>a_size = v_size ?opts, a_hop = v_hop ?opts,
        a_windowFn = Some (v_windowFn ?opts), a_ft = Some (p_ft pv)\<rparr> = Some (Inr frames0)"
    and fr: "frames = stretch_track pv factor frames0 random"
    by (auto simp: stretch_frames_def Let_def split: option.splits sum.splits)
  have fr': "frames = recalcPhases frames0 (v_size ?opts) (v_hop ?opts) factor None (p_omega pv)"
    using fr stretch_track_phase_vocoder [OF assms(1)] by simp
  then have i: "i < length frames0" using assms(4) by simp
  then have "frames0 ! i \<in> set frames0" by simp
  then have "length (phases (frames0 ! i)) = nat (v_size ?opts)"
    using analysis_Inr [OF an] by simp
  then show ?thesis
    unfolding fr' using assms(3,5) i by (intro recalcPhases_undefined_rate) simp_all
qed

text \<open>The vocoder built by \<open>phaseVocoder\<close> for size 2, hop 1 and sample rate 2, stretching a
  five-sample signal by 2: three frames, both phases of the third are NaN.\<close>

theorem stretch_phase_vocoder_nan_witness:
  "\<exists>frames. phaseVocoder pv_opts = Some (Inr pv_vocoder) \<and>
     v_algorithm (p_opts pv_vocoder) = ''phase-vocoder'' \<and>
     stretch_frames pv_vocoder 2 [Num 1, Num 2, Num 3, Num 4, Num 5] None (\<lambda>k. 0)
       = Some (Inr frames) \<and>
     length frames = 3 \<and> phases (frames ! 2) ! 0 = NaN \<and> phases (frames ! 2) ! 1 = NaN"
proof -
  let ?sig = "[Num 1, Num 2, Num 3, Num 4, Num 5]"
  have alg: "v_algorithm (p_opts pv_vocoder) = ''phase-vocoder''"
    by (simp add: pv_vocoder_def pv_opts_def)
  have n: "(3::int) = \<lfloor>of_int (int (length ?sig) - 2) / 1 :: real\<rfloor>" by simp
  obtain frames0 where
    an: "analysis ?sig \<lparr>a_size = 2, a_hop = 1, a_windowFn = Some hanning, a_ft = Some example_ft2\<rparr>
      = Some (Inr frames0)" and len0: "length frames0 = 3"
    using analysis_result [OF fft_2 _ _ n, of "Some example_ft2" "Some hanning"] by auto
  let ?frames = "stretch_track pv_vocoder 2 frames0 (\<lambda>k. 0)"
  have run: "stretch_frames pv_vocoder 2 ?sig None (\<lambda>k. 0) = Some (Inr ?frames)"
    using an by (simp add: stretch_frames_def pv_vocoder_def pv_opts_def)
  have len: "length ?frames = 3"
    using len0 by (simp add: stretch_track_phase_vocoder [OF alg])
  have "phases (?frames ! 2) ! 0 = NaN" "phases (?frames ! 2) ! 1 = NaN"
    using stretch_phase_vocoder_nan [OF alg run, of 2 0]
      stretch_phase_vocoder_nan [OF alg run, of 2 1] len
    by (simp_all add: pv_vocoder_def pv_opts_def)
  then show ?thesis using phaseVocoder_pv alg run len by blast
qed

text \<open>
  C3 is not what the code does.  \<open>stretch\<close> calls \<open>randomPhases\<close> with the number
  \<open>size\<close> where the function takes an object with a property \<open>size\<close>, so the inner loop
  never runs and no phase is assigned.  With algorithm \<open>paul-stretch\<close>, size 4, hop 2 and
  a window of ones, the single frame of the signal \<open>[0, 1, 0, 0, 0, 0]\<close> keeps its analysis
  phases after phase tracking, whatever the random source; the last of them is
  \<open>-\<pi>/2\<close>, outside \<open>[0, 2\<pi>)\<close>.  The magnitudes are unchanged, as the claim says.
\<close>

theorem paul_stretch_phases_not_randomized:
  "phaseVocoder paul_opts = Some (Inr paul_vocoder) \<and>
   stretch_frames paul_vocoder factor [Num 0, Num 1, Num 0, Num 0, Num 0, Num 0] None random =
     Some (Inr [\<lparr>magnitudes = [Num 1, Num 1, Num 1, Num 1],
                 phases = [Num 0, Num (pi / 2), Num pi, Num (- (pi / 2))]\<rparr>]) \<and>
   - (pi / 2) < (0::real)"
proof -
  have alg: "v_algorithm (p_opts paul_vocoder) = ''paul-stretch''"
    by (simp add: paul_vocoder_def paul_opts_def)
  have "stretch_frames paul_vocoder factor [Num 0, Num 1, Num 0, Num 0, Num 0, Num 0] None random =
     Some (Inr [\<lparr>magnitudes = [Num 1, Num 1, Num 1, Num 1],
                 phases = [Num 0, Num (pi / 2), Num pi, Num (- (pi / 2))]\<rparr>])"
    unfolding stretch_frames_def Let_def stretch_track_paul [OF alg]
    by (simp add: paul_vocoder_def paul_opts_def analysis_4)
  then show ?thesis using phaseVocoder_paul by simp
qed

section \<open>Synthesis\<close>

lemma length_view_wr [simp]: "length (view_wr out v i x) = length out"
  by (simp add: view_wr_def)












end
